theory Spec2Isabelle
  imports Complex_Main "HOL-Library.AList" "HOL-Library.Multiset"
begin

text \<open>
  The retrieval core of the application: the validation and summary of an uploaded
  chunk collection (\<open>validateAndProcessData\<close> of the App component), the term-frequency
  index and the cosine-similarity search over it (\<open>src/lib/cosine-similarity.ts\<close>), and
  the store of saved collections (\<open>src/lib/db.ts\<close>). The functions are translated one
  by one, under their own names; what JavaScript does implicitly (exceptions, \<open>NaN\<close>,
  reads past the end of an array, property lookup in an object) is written out.
\<close>

section \<open>JavaScript values used by the retrieval core\<close>

text \<open>
  A JavaScript \<open>number\<close> is modelled as a real number or \<open>NaN\<close>: \<open>Some x\<close> is the
  number \<open>x\<close>, \<open>None\<close> is \<open>NaN\<close>. Rounding of IEEE doubles and the infinities are not
  modelled; the counts and norms computed here are small non-negative values.
  Arithmetic propagates \<open>NaN\<close> as JavaScript does.
\<close>

type_synonym number = "real option"

definition num_add :: "number \<Rightarrow> number \<Rightarrow> number" where
  "num_add a b = (case (a, b) of (Some x, Some y) \<Rightarrow> Some (x + y) | _ \<Rightarrow> None)"

definition num_sub :: "number \<Rightarrow> number \<Rightarrow> number" where
  "num_sub a b = (case (a, b) of (Some x, Some y) \<Rightarrow> Some (x - y) | _ \<Rightarrow> None)"

definition num_mul :: "number \<Rightarrow> number \<Rightarrow> number" where
  "num_mul a b = (case (a, b) of (Some x, Some y) \<Rightarrow> Some (x * y) | _ \<Rightarrow> None)"

definition num_sqrt :: "number \<Rightarrow> number" where
  \<comment> \<open>\<open>Math.sqrt\<close>: \<open>NaN\<close> on \<open>NaN\<close> and on negative arguments.\<close>
  "num_sqrt a = (case a of Some x \<Rightarrow> if x < 0 then None else Some (sqrt x) | None \<Rightarrow> None)"

definition num_div :: "number \<Rightarrow> number \<Rightarrow> number" where
  \<comment> \<open>Only ever applied to a divisor that is \<open>NaN\<close> or non-zero (see \<open>cosineSimilarity\<close>);
      a zero divisor, which would give an infinity, is mapped to \<open>None\<close>.\<close>
  "num_div a b = (case (a, b) of
       (Some x, Some y) \<Rightarrow> if y = 0 then None else Some (x / y)
     | _ \<Rightarrow> None)"

definition num_gt0 :: "number \<Rightarrow> bool" where
  \<comment> \<open>\<open>v > 0\<close>; every comparison with \<open>NaN\<close> is false.\<close>
  "num_gt0 v = (case v of Some x \<Rightarrow> 0 < x | None \<Rightarrow> False)"

definition array_get :: "'a list \<Rightarrow> nat \<Rightarrow> 'a option" where
  \<comment> \<open>\<open>xs[i]\<close>: \<open>None\<close> is \<open>undefined\<close>, the value read past the end of an array.\<close>
  "array_get xs i = (if i < length xs then Some (xs ! i) else None)"

definition num_at :: "number list \<Rightarrow> nat \<Rightarrow> number" where
  \<comment> \<open>\<open>v[i]\<close> used as an operand: \<open>undefined\<close> (a hole or an index past the end)
      converts to \<open>NaN\<close>.\<close>
  "num_at v i = (case array_get v i of Some x \<Rightarrow> x | None \<Rightarrow> None)"

text \<open>
  \<open>Array.prototype.sort(comparefn)\<close> is stable (since ECMAScript 2019), and a comparator
  result of \<open>NaN\<close> counts as \<open>0\<close>. For a consistent comparator the sorted array is thereby
  determined; it is computed here by stable insertion: an element moves behind a later
  one only where the comparator is positive. (For an inconsistent comparator the
  language leaves the order to the engine; no theorem below depends on that case.)
\<close>

fun sort_insert :: "('a \<Rightarrow> 'a \<Rightarrow> number) \<Rightarrow> 'a \<Rightarrow> 'a list \<Rightarrow> 'a list" where
  "sort_insert comparefn x [] = [x]"
| "sort_insert comparefn x (y # ys) =
     (if num_gt0 (comparefn x y) then y # sort_insert comparefn x ys else x # y # ys)"

definition array_sort :: "('a \<Rightarrow> 'a \<Rightarrow> number) \<Rightarrow> 'a list \<Rightarrow> 'a list" where
  "array_sort comparefn xs = foldr (sort_insert comparefn) xs []"

section \<open>Strings\<close>

text \<open>
  A string is a list of 8-bit character codes, read as the code units U+0000 to U+00FF;
  \<open>length\<close> is then JavaScript's \<open>.length\<close>. On these, \<open>toLowerCase\<close> maps \<open>A\<close>-\<open>Z\<close> and the
  Latin-1 capitals U+00C0-U+00DE (except U+00D7) to the letter 32 places up, \<open>\w\<close> is
  \<open>[A-Za-z0-9_]\<close>, and \<open>trim\<close> removes tab, LF, VT, FF, CR, space and U+00A0.
\<close>

definition is_word_char :: "char \<Rightarrow> bool" where
  "is_word_char c = (let n = (of_char c :: nat) in
     (48 \<le> n \<and> n \<le> 57) \<or> (65 \<le> n \<and> n \<le> 90) \<or> n = 95 \<or> (97 \<le> n \<and> n \<le> 122))"

definition toLowerCase_char :: "char \<Rightarrow> char" where
  "toLowerCase_char c = (let n = (of_char c :: nat) in
     if (65 \<le> n \<and> n \<le> 90) \<or> (192 \<le> n \<and> n \<le> 222 \<and> n \<noteq> 215)
     then char_of (n + 32) else c)"

definition toLowerCase :: "string \<Rightarrow> string" where
  "toLowerCase s = map toLowerCase_char s"

definition is_white_space :: "char \<Rightarrow> bool" where
  "is_white_space c = (let n = (of_char c :: nat) in (9 \<le> n \<and> n \<le> 13) \<or> n = 32 \<or> n = 160)"

definition trim :: "string \<Rightarrow> string" where
  "trim s = rev (dropWhile is_white_space (rev (dropWhile is_white_space s)))"

text \<open>
  \<open>s.match(/\b\w+\b/g)\<close>: the matches of the greedy \<open>\w+\<close> between two word boundaries,
  scanned from left to right, are the maximal runs of word characters. \<open>word_runs run cs\<close>
  scans \<open>cs\<close> with the run collected so far.
\<close>

fun word_runs :: "string \<Rightarrow> string \<Rightarrow> string list" where
  "word_runs run [] = (if run = [] then [] else [run])"
| "word_runs run (c # cs) =
     (if is_word_char c then word_runs (run @ [c]) cs
      else if run = [] then word_runs [] cs
      else run # word_runs [] cs)"

section \<open>src/types.ts\<close>

text \<open>
  The decoded JSON value a collection is read from, and the chunk it is cast to once
  validated. A record is the list of its members (a decoded record has one member per
  key; of several the first is the one read); a number is finite. \<open>extra\<close> holds the
  members of a chunk other than the four named ones.
\<close>

datatype json =
    JNull
  | JBool bool
  | JNum real
  | JStr string
  | JArr "json list"
  | JObj "(string \<times> json) list"

record VectorChunk =
  id_chunk :: string
  source :: string
  text_chunk :: string
  startIndex :: real
  extra :: "(string \<times> json) list"

section \<open>src/lib/cosine-similarity.ts\<close>

datatype js_error =
    TypeError  \<comment> \<open>reading an element of \<open>undefined\<close>\<close>

text \<open>
  A \<open>Map<string, number>\<close> is the list of its entries in insertion order; \<open>get\<close> and \<open>has\<close>
  find the first entry of a key, \<open>set\<close> overwrites it in place or appends a new entry, and
  \<open>size\<close> counts the distinct keys. The values are the non-negative integers that
  \<open>createVocabulary\<close> stores.
\<close>

type_synonym vocabulary = "(string \<times> nat) list"

definition map_has :: "vocabulary \<Rightarrow> string \<Rightarrow> bool" where
  "map_has m k = (map_of m k \<noteq> None)"

definition map_get :: "vocabulary \<Rightarrow> string \<Rightarrow> nat option" where
  "map_get m k = map_of m k"

definition map_set :: "vocabulary \<Rightarrow> string \<Rightarrow> nat \<Rightarrow> vocabulary" where
  "map_set m k v = AList.update k v m"

definition map_size :: "vocabulary \<Rightarrow> nat" where
  "map_size m = length (remdups (map fst m))"

definition tokenize :: "string \<Rightarrow> string list" where
  "tokenize text = word_runs [] (toLowerCase text)"

definition createVocabulary :: "string list list \<Rightarrow> vocabulary" where
  "createVocabulary tokenizedDocs =
     fst (fold (\<lambda>tokens. fold (\<lambda>token (vocab, index).
                  if \<not> map_has vocab token then (map_set vocab token index, index + 1)
                  else (vocab, index)) tokens)
            tokenizedDocs ([], 0))"

definition array_increment :: "number list \<Rightarrow> nat \<Rightarrow> number list" where
  \<comment> \<open>\<open>vector[i]++\<close>. Past the end the array grows to length \<open>i + 1\<close>, the new
      entry is \<open>undefined + 1 = NaN\<close> and the entries between are holes (read as
      \<open>undefined\<close>, so \<open>NaN\<close> as operands); from \<open>2^32 - 1\<close> on, \<open>i\<close> is no array index
      and the elements are untouched.\<close>
  "array_increment vector i =
     (if i < length vector then vector[i := num_add (vector ! i) (Some 1)]
      else if int i < 4294967295 then vector @ replicate (i - length vector) None @ [None]
      else vector)"

definition createTfVector :: "string list \<Rightarrow> vocabulary \<Rightarrow> number list" where
  "createTfVector tokens vocab =
     fold (\<lambda>token vector.
             case map_get vocab token of
               Some tokenIndex \<Rightarrow> array_increment vector tokenIndex
             | None \<Rightarrow> vector)
       tokens (replicate (map_size vocab) (Some 0))"

definition cosineSimilarity :: "number list \<Rightarrow> number list option \<Rightarrow> js_error + number" where
  \<comment> \<open>\<open>vecB = None\<close> is the argument \<open>undefined\<close>: \<open>vecB[i]\<close> then throws, at the
      first iteration of the loop.\<close>
  "cosineSimilarity vecA vecB =
     (case vecB of
        None \<Rightarrow> if vecA = [] then Inr (Some 0) else Inl TypeError
      | Some b \<Rightarrow>
          let (dotProduct, magA, magB) =
                fold (\<lambda>i (dotProduct, magA, magB).
                        (num_add dotProduct (num_mul (num_at vecA i) (num_at b i)),
                         num_add magA (num_mul (num_at vecA i) (num_at vecA i)),
                         num_add magB (num_mul (num_at b i) (num_at b i))))
                  [0..<length vecA] (Some 0, Some 0, Some 0);
              magA = num_sqrt magA;
              magB = num_sqrt magB
          in if magA = Some 0 \<or> magB = Some 0 then Inr (Some 0)
             else Inr (num_div dotProduct (num_mul magA magB)))"

record Precomputed =
  vectors :: "number list list"
  vocab :: vocabulary

definition precomputeVectors :: "VectorChunk list \<Rightarrow> Precomputed" where
  "precomputeVectors chunks =
     (let tokenizedDocs = map (\<lambda>chunk. tokenize (text_chunk chunk)) chunks;
          vocab = createVocabulary tokenizedDocs;
          vectors = map (\<lambda>tokens. createTfVector tokens vocab) tokenizedDocs
      in \<lparr>vectors = vectors, vocab = vocab\<rparr>)"

record SearchResult =
  chunk :: VectorChunk
  score :: number

fun map_throwing :: "('a \<Rightarrow> js_error + 'b) \<Rightarrow> 'a list \<Rightarrow> js_error + 'b list" where
  \<comment> \<open>\<open>xs.map(f)\<close> for a callback that may throw: the first exception ends the call.\<close>
  "map_throwing f [] = Inr []"
| "map_throwing f (x # xs) =
     (case f x of
        Inl e \<Rightarrow> Inl e
      | Inr y \<Rightarrow> (case map_throwing f xs of Inl e \<Rightarrow> Inl e | Inr ys \<Rightarrow> Inr (y # ys)))"

definition performSearch ::
  "string \<Rightarrow> VectorChunk list \<Rightarrow> number list list \<Rightarrow> vocabulary \<Rightarrow> js_error + SearchResult list" where
  "performSearch query chunks vectors vocab =
     (if trim query = [] then Inr []
      else
        let queryTokens = tokenize query;
            queryVector = createTfVector queryTokens vocab
        in case map_throwing
                  (\<lambda>(index, chunk).
                     case cosineSimilarity queryVector (array_get vectors index) of
                       Inl e \<Rightarrow> Inl e
                     | Inr s \<Rightarrow> Inr \<lparr>chunk = chunk, score = s\<rparr>)
                  (enumerate 0 chunks) of
             Inl e \<Rightarrow> Inl e
           | Inr results \<Rightarrow>
               Inr (take 3
                     (array_sort (\<lambda>a b. num_sub (score b) (score a))
                       (filter (\<lambda>result. num_gt0 (score result)) results))))"
  for vectors vocab

section \<open>The App component: validateAndProcessData\<close>

datatype validation_error =
    NotAList  \<comment> \<open>\<open>Invalid JSON format: Top-level structure is not a list.\<close>\<close>
  | NonObjectItem  \<comment> \<open>\<open>Invalid item in list: Found a non-object value.\<close>\<close>
  | InvalidField string string json
      \<comment> \<open>\<open>Invalid item field 'f': Expected ..., got t. Item: ...\<close> with the field \<open>f\<close>,
          the \<open>typeof\<close> \<open>t\<close> of its value and the item\<close>

fun typeof :: "json option \<Rightarrow> string" where
  \<comment> \<open>\<open>None\<close> is \<open>undefined\<close>; \<open>null\<close> and arrays are objects to \<open>typeof\<close>.\<close>
  "typeof None = ''undefined''"
| "typeof (Some JNull) = ''object''"
| "typeof (Some (JBool b)) = ''boolean''"
| "typeof (Some (JNum n)) = ''number''"
| "typeof (Some (JStr s)) = ''string''"
| "typeof (Some (JArr xs)) = ''object''"
| "typeof (Some (JObj members)) = ''object''"

fun get_field :: "json \<Rightarrow> string \<Rightarrow> json option" where
  \<comment> \<open>\<open>item.key\<close> for the four keys read below, none of which an array or
      \<open>Object.prototype\<close> has: an own field of a record, \<open>undefined\<close> otherwise.\<close>
  "get_field (JObj members) key = map_of members key"
| "get_field item key = None"

definition other_fields :: "json \<Rightarrow> (string \<times> json) list" where
  "other_fields item =
     (case item of
        JObj members \<Rightarrow>
          filter (\<lambda>(key, v). key \<notin> {''id'', ''source'', ''text'', ''startIndex''}) members
      | _ \<Rightarrow> [])"

definition validate_item :: "json \<Rightarrow> validation_error + VectorChunk" where
  \<comment> \<open>The body of the checking loop, in the order of its tests; an item that
      passes them all is the chunk that the cast \<open>data as VectorChunk[]\<close> reads it as.\<close>
  "validate_item item =
     (if typeof (Some item) \<noteq> ''object'' \<or> item = JNull then Inl NonObjectItem
      else case get_field item ''id'' of
        Some (JStr i) \<Rightarrow>
          (case get_field item ''source'' of
             Some (JStr s) \<Rightarrow>
               (case get_field item ''text'' of
                  Some (JStr t) \<Rightarrow>
                    (case get_field item ''startIndex'' of
                       Some (JNum n) \<Rightarrow>
                         Inr \<lparr>id_chunk = i, source = s, text_chunk = t, startIndex = n,
                              extra = other_fields item\<rparr>
                     | v \<Rightarrow> Inl (InvalidField ''startIndex'' (typeof v) item))
                | v \<Rightarrow> Inl (InvalidField ''text'' (typeof v) item))
           | v \<Rightarrow> Inl (InvalidField ''source'' (typeof v) item))
      | v \<Rightarrow> Inl (InvalidField ''id'' (typeof v) item))"

fun validate_items :: "json list \<Rightarrow> validation_error + VectorChunk list" where
  \<comment> \<open>\<open>for (const item of data)\<close>: the first failing item throws.\<close>
  "validate_items [] = Inr []"
| "validate_items (item # items) =
     (case validate_item item of
        Inl e \<Rightarrow> Inl e
      | Inr c \<Rightarrow> (case validate_items items of Inl e \<Rightarrow> Inl e | Inr cs \<Rightarrow> Inr (c # cs)))"

text \<open>
  \<open>sourceCounts\<close> is an ordinary object used as a dictionary. Its own properties are kept
  in creation order. Three rules of the language show through:
  \<^item> a key that is not an own property is looked up in \<open>Object.prototype\<close>, which has
    eleven function-valued properties and the accessor \<open>__proto__\<close>;
  \<^item> \<open>obj[key] = v\<close> on the key \<open>__proto__\<close> calls that accessor's setter, which ignores a
    value that is no object: no own property is created;
  \<^item> \<open>Object.keys\<close> and \<open>Object.entries\<close> list the own keys that are array indices
    (canonical decimal numerals below \<open>2^32 - 1\<close>) first, in ascending numeric order,
    and then the other keys in creation order.
  A property value is a number (\<open>Num\<close>) or a string (\<open>Str\<close>); the strings that arise are
  the source text of a built-in function followed by \<open>1\<close>s, never a numeral.
\<close>

datatype count_value = Num nat | Str string

datatype inherited_value = ObjectPrototype | BuiltinFunction string

definition object_prototype_functions :: "(string \<times> string) list" where
  \<comment> \<open>The function-valued properties of \<open>Object.prototype\<close>, with the function's name.\<close>
  "object_prototype_functions =
     [(''constructor'', ''Object''),
      (''__defineGetter__'', ''__defineGetter__''),
      (''__defineSetter__'', ''__defineSetter__''),
      (''hasOwnProperty'', ''hasOwnProperty''),
      (''__lookupGetter__'', ''__lookupGetter__''),
      (''__lookupSetter__'', ''__lookupSetter__''),
      (''isPrototypeOf'', ''isPrototypeOf''),
      (''propertyIsEnumerable'', ''propertyIsEnumerable''),
      (''toString'', ''toString''),
      (''valueOf'', ''valueOf''),
      (''toLocaleString'', ''toLocaleString'')]"

definition inherited :: "string \<Rightarrow> inherited_value option" where
  "inherited key =
     (if key = ''__proto__'' then Some ObjectPrototype
      else map_option BuiltinFunction (map_of object_prototype_functions key))"

definition function_text :: "string \<Rightarrow> string" where
  \<comment> \<open>The string a built-in function converts to, as V8 and JavaScriptCore print it;
      other engines differ in white space only.\<close>
  "function_text name = ''function '' @ name @ ''() { [native code] }''"

definition or_zero_plus_one :: "(string \<times> count_value) list \<Rightarrow> string \<Rightarrow> count_value" where
  \<comment> \<open>\<open>(sourceCounts[key] || 0) + 1\<close>. Every object is truthy, and so is a non-empty
      string; \<open>+\<close> with an object or string operand concatenates strings.\<close>
  "or_zero_plus_one sourceCounts key =
     (case map_of sourceCounts key of
        Some (Num n) \<Rightarrow> Num (n + 1)
      | Some (Str s) \<Rightarrow> if s = [] then Num 1 else Str (s @ ''1'')
      | None \<Rightarrow>
          (case inherited key of
             None \<Rightarrow> Num 1
           | Some (BuiltinFunction name) \<Rightarrow> Str (function_text name @ ''1'')
           | Some ObjectPrototype \<Rightarrow> Str ''[object Object]1''))"

definition object_set ::
  "(string \<times> count_value) list \<Rightarrow> string \<Rightarrow> count_value \<Rightarrow> (string \<times> count_value) list" where
  "object_set obj key v = (if key = ''__proto__'' then obj else AList.update key v obj)"

definition is_digit :: "char \<Rightarrow> bool" where
  "is_digit c = (let n = (of_char c :: nat) in 48 \<le> n \<and> n \<le> 57)"

definition numeral_value :: "string \<Rightarrow> int" where
  "numeral_value s = fold (\<lambda>c n. 10 * n + (of_char c - 48)) s 0"

definition is_array_index :: "string \<Rightarrow> bool" where
  "is_array_index s =
     (s \<noteq> [] \<and> list_all is_digit s \<and> (s = ''0'' \<or> hd s \<noteq> CHR ''0'')
      \<and> numeral_value s < 4294967295)"

definition object_entries :: "(string \<times> 'v) list \<Rightarrow> (string \<times> 'v) list" where
  "object_entries obj =
     sort_key (\<lambda>(key, v). numeral_value key) (filter (\<lambda>(key, v). is_array_index key) obj)
     @ filter (\<lambda>(key, v). \<not> is_array_index key) obj"

definition object_keys :: "(string \<times> 'v) list \<Rightarrow> string list" where
  "object_keys obj = map fst (object_entries obj)"

definition to_number :: "count_value \<Rightarrow> number" where
  \<comment> \<open>The operand conversion of \<open>-\<close>: the strings that arise here are no numerals.\<close>
  "to_number v = (case v of Num n \<Rightarrow> Some (real n) | Str s \<Rightarrow> None)"

record SummaryData =
  totalChunks :: nat
  uniqueSources :: nat
  topSources :: "(string \<times> count_value) list"  \<comment> \<open>the pairs \<open>{source, count}\<close>\<close>
  totalTextLength :: nat

definition validateAndProcessData :: "json \<Rightarrow> validation_error + VectorChunk list \<times> SummaryData" where
  "validateAndProcessData data =
     (case data of
        JArr items \<Rightarrow>
          (case validate_items items of
             Inl e \<Rightarrow> Inl e
           | Inr typedData \<Rightarrow>
               let (sourceCounts, totalTextLength) =
                     fold (\<lambda>chunk (sourceCounts, totalTextLength).
                             (object_set sourceCounts (source chunk)
                                (or_zero_plus_one sourceCounts (source chunk)),
                              totalTextLength + length (text_chunk chunk)))
                       typedData ([], 0);
                   sortedSources =
                     take 10
                       (array_sort (\<lambda>(k, a) (l, b). num_sub (to_number b) (to_number a))
                         (object_entries sourceCounts));
                   summaryData =
                     \<lparr>totalChunks = length typedData,
                      uniqueSources = length (object_keys sourceCounts),
                      topSources = sortedSources,
                      totalTextLength = totalTextLength\<rparr>
               in Inr (typedData, summaryData))
      | _ \<Rightarrow> Inl NotAList)"
  for totalTextLength

section \<open>src/lib/db.ts\<close>

text \<open>
  The object store \<open>vectorData\<close> of the IndexedDB database, keyed by \<open>id\<close>. \<open>available\<close>
  says whether the database opens. \<open>saveVectorData\<close> takes the value of \<open>Date.now()\<close> as
  an argument; \<open>store.add\<close> fails on a key already present. The content written and
  read is a structured clone, deep-equal to the value given, so the value itself.
\<close>

record 'c StoredVectorStore =
  id_store :: int
  fileName :: string
  content :: 'c

datatype db_error =
    ErrorOpening  \<comment> \<open>\<open>Error opening IndexedDB.\<close>\<close>
  | FailedToSave  \<comment> \<open>\<open>Failed to save data to IndexedDB.\<close>\<close>

record 'c database =
  available :: bool
  vectorData :: "int \<Rightarrow> 'c StoredVectorStore option"

definition saveVectorData ::
  "int \<Rightarrow> string \<Rightarrow> 'c \<Rightarrow> 'c database \<Rightarrow> db_error + int \<times> 'c database" where
  "saveVectorData now fileName content db =
     (if \<not> available db then Inl ErrorOpening
      else
        let id = now;
            dataToStore = \<lparr>id_store = id, fileName = fileName, content = content\<rparr>
        in if vectorData db id \<noteq> None then Inl FailedToSave
           else Inr (id, db\<lparr>vectorData := (vectorData db)(id \<mapsto> dataToStore)\<rparr>))"
  for fileName content

definition getVectorStore :: "int \<Rightarrow> 'c database \<Rightarrow> db_error + 'c StoredVectorStore option" where
  \<comment> \<open>\<open>None\<close> is \<open>null\<close>.\<close>
  "getVectorStore id db = (if \<not> available db then Inl ErrorOpening else Inr (vectorData db id))"
  for id

section \<open>The example collection of the specification\<close>

definition chunk_a :: VectorChunk where
  "chunk_a = \<lparr>id_chunk = ''a'', source = ''doc1'', text_chunk = ''red fox'',
              startIndex = 0, extra = []\<rparr>"

definition chunk_b :: VectorChunk where
  "chunk_b = \<lparr>id_chunk = ''b'', source = ''doc1'', text_chunk = ''blue sky'',
              startIndex = 10, extra = []\<rparr>"

definition example_collection :: "VectorChunk list" where
  "example_collection = [chunk_a, chunk_b]"

definition example_index :: Precomputed where
  "example_index = precomputeVectors example_collection"

text \<open>
  A collection with ties: for the query \<open>fox\<close> the chunks \<open>c1\<close> and \<open>c3\<close> score \<open>1\<close>, the
  chunks \<open>c0\<close> and \<open>c4\<close> score \<open>1 / sqrt 2\<close>, and \<open>c2\<close> scores \<open>0\<close>.
\<close>

definition tied_collection :: "VectorChunk list" where
  "tied_collection =
     map (\<lambda>(i, t). \<lparr>id_chunk = i, source = ''doc1'', text_chunk = t, startIndex = 0, extra = []\<rparr>)
       [(''c0'', ''red fox''), (''c1'', ''fox''), (''c2'', ''sky''), (''c3'', ''fox fox''),
        (''c4'', ''fox red'')]"

section \<open>Orders and norms used in the statements\<close>

text \<open>
  \<open>ranks_before k i j\<close>: position \<open>i\<close> precedes position \<open>j\<close> in a ranking by descending
  key \<open>k\<close> whose ties keep the original order.
\<close>

definition ranks_before :: "(nat \<Rightarrow> real) \<Rightarrow> nat \<Rightarrow> nat \<Rightarrow> bool" where
  "ranks_before k i j = (k j < k i \<or> (k j = k i \<and> i < j))"

text \<open>
  The Euclidean norm of a vector of numbers, \<open>NaN\<close> when an entry is; \<open>sum_squares\<close> is
  its square.
\<close>

definition vector_norm :: "number list \<Rightarrow> number" where
  "vector_norm v = (if None \<in> set v then None else Some (sqrt (\<Sum>x\<leftarrow>v. (the x)\<^sup>2)))"

definition sum_squares :: "number list \<Rightarrow> number" where
  "sum_squares v = (if None \<in> set v then None else Some (\<Sum>x\<leftarrow>v. (the x)\<^sup>2))"

text \<open>
  \<open>first_seen xs\<close>: the distinct elements of \<open>xs\<close>, in the order of their first occurrence.
\<close>

fun first_seen :: "'a list \<Rightarrow> 'a list" where
  "first_seen [] = []"
| "first_seen (x # xs) = x # removeAll x (first_seen xs)"

text \<open>
  The maximal runs of word characters of a string, as the specification words them:
  skip the separators, take the longest run of word characters, go on behind it.
\<close>

function maximal_word_runs :: "string \<Rightarrow> string list" where
  "maximal_word_runs s =
     (let rest = dropWhile (\<lambda>c. \<not> is_word_char c) s
      in if rest = [] then []
         else takeWhile is_word_char rest # maximal_word_runs (dropWhile is_word_char rest))"
  by pat_completeness auto
termination
proof (relation "measure length")
  show "wf (measure length)" by simp
next
  fix s rest :: string
  assume rest: "rest = dropWhile (\<lambda>c. \<not> is_word_char c) s" and ne: "rest \<noteq> []"
  from ne obtain c cs where r: "rest = c # cs" by (auto simp: neq_Nil_conv)
  have eq: "dropWhile (\<lambda>c. \<not> is_word_char c) s = c # cs" using rest r by simp
  have "is_word_char c" using hd_dropWhile [of "\<lambda>c. \<not> is_word_char c" s] by (simp add: eq)
  then have "length (dropWhile is_word_char rest) \<le> length cs"
    using r by (simp add: length_dropWhile_le)
  also have "length cs < length rest" using r by simp
  also have "length rest \<le> length s" using rest by (simp add: length_dropWhile_le)
  finally show "(dropWhile is_word_char rest, s) \<in> measure length" by simp
qed

declare maximal_word_runs.simps [simp del]

section \<open>Notions used in the statements about validation\<close>

text \<open>
  \<open>is_chunk_record\<close>: a record containing string \<open>id\<close>, string \<open>source\<close>, string \<open>text\<close> and
  numeric \<open>startIndex\<close>; \<open>expected_type\<close>: the type required of each of these fields.
\<close>

definition expected_type :: "string \<Rightarrow> string" where
  "expected_type field = (if field = ''startIndex'' then ''number'' else ''string'')"

definition is_chunk_record :: "json \<Rightarrow> bool" where
  "is_chunk_record item =
     (case item of
        JObj members \<Rightarrow>
          typeof (map_of members ''id'') = ''string''
          \<and> typeof (map_of members ''source'') = ''string''
          \<and> typeof (map_of members ''text'') = ''string''
          \<and> typeof (map_of members ''startIndex'') = ''number''
      | _ \<Rightarrow> False)"

text \<open>
  \<open>tally_loop\<close> is the state \<open>(sourceCounts, totalTextLength)\<close> after the \<open>forEach\<close> loop of
  \<open>validateAndProcessData\<close>. \<open>tally sources s\<close> is the value the loop leaves under the key
  \<open>s\<close>: the number of occurrences of \<open>s\<close>, unless \<open>s\<close> names a function of
  \<open>Object.prototype\<close>. \<open>counted_sources\<close> are the keys it creates, in creation order, and
  \<open>property_order\<close> is the order in which \<open>Object.entries\<close> lists them.
\<close>

definition tally_loop :: "VectorChunk list \<Rightarrow> (string \<times> count_value) list \<times> nat" where
  "tally_loop typedData =
     fold (\<lambda>chunk (sourceCounts, totalTextLength).
             (object_set sourceCounts (source chunk)
                (or_zero_plus_one sourceCounts (source chunk)),
              totalTextLength + length (text_chunk chunk)))
       typedData ([], 0)"

definition tally :: "string list \<Rightarrow> string \<Rightarrow> count_value" where
  "tally sources s =
     (case map_of object_prototype_functions s of
        None \<Rightarrow> Num (count_list sources s)
      | Some name \<Rightarrow> Str (function_text name @ replicate (count_list sources s) CHR ''1''))"

definition counted_sources :: "VectorChunk list \<Rightarrow> string list" where
  "counted_sources cs = first_seen (filter (\<lambda>s. s \<noteq> ''__proto__'') (map source cs))"

definition property_order :: "string list \<Rightarrow> string list" where
  "property_order ks =
     sort_key numeral_value (filter is_array_index ks) @ filter (\<lambda>k. \<not> is_array_index k) ks"

section \<open>Inputs used as examples\<close>

definition chunk_item :: "string \<Rightarrow> string \<Rightarrow> string \<Rightarrow> real \<Rightarrow> json" where
  "chunk_item i s t n =
     JObj [(''id'', JStr i), (''source'', JStr s), (''text'', JStr t), (''startIndex'', JNum n)]"

definition example_input :: json where
  "example_input =
     JArr [chunk_item ''a'' ''doc1'' ''red fox'' 0, chunk_item ''b'' ''doc1'' ''blue sky'' 10]"

definition fractional_start_input :: json where
  "fractional_start_input = JArr [chunk_item ''a'' ''doc1'' ''red fox'' (- 3 / 2)]"

definition numeric_sources_input :: json where
  "numeric_sources_input = JArr [chunk_item ''a'' ''2'' ''red'' 0, chunk_item ''b'' ''1'' ''fox'' 3]"

definition proto_source_input :: json where
  "proto_source_input = JArr [chunk_item ''a'' ''__proto__'' ''red fox'' 0]"

definition constructor_source_input :: json where
  "constructor_source_input = JArr [chunk_item ''a'' ''constructor'' ''red fox'' 0]"

text \<open>An available database that holds no store yet.\<close>

definition empty_database :: "json database" where
  "empty_database = \<lparr>available = True, vectorData = (\<lambda>id. None)\<rparr>"

section \<open>Searching the example collection\<close>

lemma example_vocab:
  "vocab example_index = [(''red'', 0), (''fox'', 1), (''blue'', 2), (''sky'', 3)]"
  by code_simp

lemma example_vectors:
  "vectors example_index = [[Some 1, Some 1, Some 0, Some 0], [Some 0, Some 0, Some 1, Some 1]]"
  by code_simp

lemma example_query_vector:
  "createTfVector (tokenize ''fox'') (vocab example_index) = [Some 0, Some 1, Some 0, Some 0]"
  by code_simp

lemma example_query_not_blank: "trim ''fox'' \<noteq> []"
  by code_simp

lemma upt_4: "[0..<4] = [0, 1, 2, 3]"
  by code_simp

lemma example_score_a:
  "cosineSimilarity [Some 0, Some 1, Some 0, Some 0] (Some [Some 1, Some 1, Some 0, Some 0])
     = Inr (Some (1 / sqrt 2))"
  by (simp add: cosineSimilarity_def upt_4 num_at_def array_get_def num_add_def num_mul_def
        num_sqrt_def num_div_def)

lemma example_score_b:
  "cosineSimilarity [Some 0, Some 1, Some 0, Some 0] (Some [Some 0, Some 0, Some 1, Some 1])
     = Inr (Some 0)"
  by (simp add: cosineSimilarity_def upt_4 num_at_def array_get_def num_add_def num_mul_def
        num_sqrt_def num_div_def)

lemma example_search:
  "performSearch ''fox'' example_collection (vectors example_index) (vocab example_index)
     = Inr [\<lparr>chunk = chunk_a, score = Some (1 / sqrt 2)\<rparr>]"
  unfolding performSearch_def Let_def example_query_vector example_vectors
  by (simp add: example_query_not_blank example_collection_def enumerate_eq_zip array_get_def
        example_score_a example_score_b num_gt0_def array_sort_def)

text \<open>
  Claim C1, as stated: searching the example collection for \<open>fox\<close> gives chunk \<open>a\<close> as the
  top result with score \<open>1.0\<close>. The top result's score is not \<open>1\<close>.
\<close>

theorem example_top_score_not_one:
  "score (hd (projr (performSearch ''fox'' example_collection
       (vectors example_index) (vocab example_index)))) \<noteq> Some 1"
  by (simp add: example_search)

text \<open>
  Claim C1, amended: searching the example collection for \<open>fox\<close> returns exactly one
  result, chunk \<open>a\<close>, with score \<open>1 / sqrt 2\<close> (the query has one token, the chunk has
  two); chunk \<open>b\<close>, whose score is \<open>0\<close>, is not among the results.
\<close>

theorem example_search_result:
  "performSearch ''fox'' example_collection (vectors example_index) (vocab example_index)
     = Inr [\<lparr>chunk = chunk_a, score = Some (1 / sqrt 2)\<rparr>]
   \<and> chunk_b \<notin> chunk ` set (projr (performSearch ''fox'' example_collection
         (vectors example_index) (vocab example_index)))"
  by (simp add: example_search chunk_a_def chunk_b_def)

section \<open>Ranking of search results\<close>


lemma map_throwing_Inr:
  "map_throwing f xs = Inr ys \<Longrightarrow> length ys = length xs \<and> (\<forall>i<length xs. f (xs ! i) = Inr (ys ! i))"
proof (induction xs arbitrary: ys)
  case Nil
  then show ?case by simp
next
  case (Cons x xs)
  from Cons.prems obtain y ys' where fx: "f x = Inr y" and rest: "map_throwing f xs = Inr ys'"
    and ys: "ys = y # ys'"
    by (auto split: sum.splits)
  from Cons.IH [OF rest] have len: "length ys' = length xs"
    and nth: "\<forall>i<length xs. f (xs ! i) = Inr (ys' ! i)" by simp_all
  show ?case
  proof (intro conjI allI impI)
    show "length ys = length (x # xs)" using len ys by simp
  next
    fix i assume "i < length (x # xs)"
    then show "f ((x # xs) ! i) = Inr (ys ! i)"
      using fx nth ys by (cases i) simp_all
  qed
qed

lemma set_sort_insert: "set (sort_insert cmp x ys) = insert x (set ys)"
  by (induction ys) auto

lemma set_array_sort: "set (array_sort cmp xs) = set xs"
  by (induction xs) (simp_all add: array_sort_def set_sort_insert)

lemma sort_insert_map:
  "sort_insert cmp (f x) (map f ys) = map f (sort_insert (\<lambda>a b. cmp (f a) (f b)) x ys)"
  by (induction ys) simp_all

lemma array_sort_map:
  "array_sort cmp (map f xs) = map f (array_sort (\<lambda>a b. cmp (f a) (f b)) xs)"
  by (induction xs) (simp_all add: array_sort_def sort_insert_map)

lemma array_sort_Cons: "array_sort cmp (x # xs) = sort_insert cmp x (array_sort cmp xs)"
  by (simp add: array_sort_def)

lemma sort_insert_ranked:
  assumes "sorted_wrt (ranks_before k) ys" and "\<forall>y\<in>set ys. x < y"
    and "\<forall>y\<in>set ys. num_gt0 (cmp x y) = (k x < k y)"
  shows "sorted_wrt (ranks_before k) (sort_insert cmp x ys)"
  using assms
proof (induction ys)
  case Nil
  then show ?case by simp
next
  case (Cons y ys)
  show ?case
  proof (cases "k x < k y")
    case True
    then have "sort_insert cmp x (y # ys) = y # sort_insert cmp x ys"
      using Cons.prems(3) by simp
    moreover have "sorted_wrt (ranks_before k) (sort_insert cmp x ys)"
      using Cons by simp
    moreover have "\<forall>z\<in>set (sort_insert cmp x ys). ranks_before k y z"
      using Cons.prems(1) True by (auto simp: set_sort_insert ranks_before_def)
    ultimately show ?thesis by simp
  next
    case False
    then have eq: "sort_insert cmp x (y # ys) = x # y # ys"
      using Cons.prems(3) by simp
    have "ranks_before k x y" using False Cons.prems(2) by (auto simp: ranks_before_def)
    moreover have "\<forall>z\<in>set ys. ranks_before k x z"
    proof
      fix z assume z: "z \<in> set ys"
      then have "ranks_before k y z" using Cons.prems(1) by simp
      moreover have "x < z" using z Cons.prems(2) by simp
      ultimately show "ranks_before k x z" using False by (auto simp: ranks_before_def)
    qed
    ultimately show ?thesis using Cons.prems(1) eq by simp
  qed
qed

lemma array_sort_ranked:
  assumes "sorted_wrt (<) xs"
    and "\<forall>x\<in>set xs. \<forall>y\<in>set xs. num_gt0 (cmp x y) = (k x < k y)"
  shows "sorted_wrt (ranks_before k) (array_sort cmp xs)"
  using assms
proof (induction xs)
  case Nil
  then show ?case by (simp add: array_sort_def)
next
  case (Cons x xs)
  have "sorted_wrt (ranks_before k) (array_sort cmp xs)" using Cons by simp
  moreover have "\<forall>y\<in>set (array_sort cmp xs). x < y"
    using Cons.prems(1) by (simp add: set_array_sort)
  moreover have "\<forall>y\<in>set (array_sort cmp xs). num_gt0 (cmp x y) = (k x < k y)"
    using Cons.prems(2) by (simp add: set_array_sort)
  ultimately show ?case
    unfolding array_sort_Cons by (rule sort_insert_ranked)
qed


lemma map_throwing_total:
  "\<forall>x\<in>set xs. \<exists>y. f x = Inr y \<Longrightarrow> \<exists>ys. map_throwing f xs = Inr ys"
proof (induction xs)
  case Nil
  then show ?case by simp
next
  case (Cons x xs)
  then obtain y ys where "f x = Inr y" "map_throwing f xs = Inr ys" by auto
  then show ?case by simp
qed

lemma cosineSimilarity_defined: "\<exists>s. cosineSimilarity a (Some b) = Inr s"
  by (simp add: cosineSimilarity_def Let_def split: prod.splits)

lemma performSearch_returns:
  assumes "length chunks \<le> length vs"
  shows "\<exists>results. performSearch query chunks vs voc = Inr results"
proof (cases "trim query = []")
  case True
  then show ?thesis by (simp add: performSearch_def)
next
  case False
  let ?F = "\<lambda>(index, chunk).
              case cosineSimilarity (createTfVector (tokenize query) voc) (array_get vs index) of
                Inl e \<Rightarrow> Inl e
              | Inr s \<Rightarrow> Inr \<lparr>chunk = chunk, score = s\<rparr>"
  have "\<forall>x\<in>set (enumerate 0 chunks). \<exists>y. ?F x = Inr y"
  proof
    fix x assume "x \<in> set (enumerate 0 chunks)"
    then have "fst x < length chunks" by (simp add: in_set_enumerate_eq)
    then obtain i c where x: "x = (i, c)" and i: "i < length chunks"
      by (cases x) simp
    then have "array_get vs i = Some (vs ! i)" using assms by (simp add: array_get_def)
    moreover obtain s where "cosineSimilarity (createTfVector (tokenize query) voc) (Some (vs ! i)) = Inr s"
      using cosineSimilarity_defined by blast
    ultimately show "\<exists>y. ?F x = Inr y" using x by simp
  qed
  then obtain rs where "map_throwing ?F (enumerate 0 chunks) = Inr rs"
    using map_throwing_total by blast
  then show ?thesis using False by (simp add: performSearch_def Let_def)
qed

lemma performSearch_positions:
  assumes "performSearch query chunks vs voc = Inr results"
  shows "\<exists>positions sc.
           results = map (\<lambda>i. \<lparr>chunk = chunks ! i, score = Some (sc i)\<rparr>) positions
         \<and> length positions \<le> 3
         \<and> (\<forall>i\<in>set positions. i < length chunks \<and> 0 < sc i
               \<and> cosineSimilarity (createTfVector (tokenize query) voc) (array_get vs i)
                   = Inr (Some (sc i)))
         \<and> sorted_wrt (ranks_before sc) positions"
proof (cases "trim query = []")
  case True
  then have "results = []" using assms by (simp add: performSearch_def)
  then show ?thesis by (intro exI [of _ "[]"]) simp
next
  case False
  define qv where "qv = createTfVector (tokenize query) voc"
  define F where "F = (\<lambda>(index, chunk).
              case cosineSimilarity qv (array_get vs index) of
                Inl e \<Rightarrow> (Inl e :: js_error + SearchResult)
              | Inr s \<Rightarrow> Inr \<lparr>chunk = chunk, score = s\<rparr>)"
  define cmp where "cmp = (\<lambda>(a :: SearchResult) (b :: SearchResult). num_sub (score b) (score a))"
  from assms False obtain rs0 where rs0: "map_throwing F (enumerate 0 chunks) = Inr rs0"
    and results: "results = take 3 (array_sort cmp (filter (\<lambda>r. num_gt0 (score r)) rs0))"
    by (auto simp: performSearch_def Let_def qv_def F_def cmp_def split: sum.splits)
  define n where "n = length chunks"
  from map_throwing_Inr [OF rs0] have len: "length rs0 = n"
    and nth: "\<forall>i<n. F (i, chunks ! i) = Inr (rs0 ! i)"
    by (simp_all add: n_def nth_enumerate_eq)
  define S where "S = (\<lambda>i. score (rs0 ! i))"
  define sc where "sc = (\<lambda>i. the (S i))"
  define g where "g = (\<lambda>i. \<lparr>chunk = chunks ! i, score = S i\<rparr>)"
  have cos: "cosineSimilarity qv (array_get vs i) = Inr (S i)" and rs0_nth: "rs0 ! i = g i"
    if "i < n" for i
  proof -
    from nth that have Fi: "F (i, chunks ! i) = Inr (rs0 ! i)" by simp
    then obtain s where s: "cosineSimilarity qv (array_get vs i) = Inr s"
      and r: "rs0 ! i = \<lparr>chunk = chunks ! i, score = s\<rparr>"
      by (auto simp: F_def split: sum.splits)
    from r have "S i = s" by (simp add: S_def)
    then show "cosineSimilarity qv (array_get vs i) = Inr (S i)" and "rs0 ! i = g i"
      using s r by (simp_all add: g_def)
  qed
  have rs0_map: "rs0 = map g [0..<n]"
    using len rs0_nth by (intro nth_equalityI) simp_all
  define js where "js = filter (\<lambda>i. num_gt0 (S i)) [0..<n]"
  define positions where "positions = take 3 (array_sort (\<lambda>a b. cmp (g a) (g b)) js)"
  have results_map: "results = map g positions"
    unfolding results rs0_map positions_def js_def
    by (simp add: filter_map comp_def g_def array_sort_map take_map)
  have js_props: "i < n \<and> S i = Some (sc i) \<and> 0 < sc i" if "i \<in> set js" for i
    using that by (auto simp: js_def sc_def num_gt0_def split: option.splits)
  have sub: "set positions \<subseteq> set js"
    unfolding positions_def using set_take_subset set_array_sort by fastforce
  have "results = map (\<lambda>i. \<lparr>chunk = chunks ! i, score = Some (sc i)\<rparr>) positions"
    unfolding results_map using sub js_props by (auto simp: g_def)
  moreover have "length positions \<le> 3" by (simp add: positions_def)
  moreover have "\<forall>i\<in>set positions. i < length chunks \<and> 0 < sc i
       \<and> cosineSimilarity (createTfVector (tokenize query) voc) (array_get vs i) = Inr (Some (sc i))"
    using sub js_props cos by (auto simp: n_def qv_def)
  moreover have "sorted_wrt (ranks_before sc) positions"
  proof -
    have "sorted_wrt (<) js" unfolding js_def by (simp add: sorted_wrt_filter)
    moreover have "\<forall>x\<in>set js. \<forall>y\<in>set js. num_gt0 (cmp (g x) (g y)) = (sc x < sc y)"
      using js_props by (auto simp: cmp_def g_def num_sub_def num_gt0_def)
    ultimately have "sorted_wrt (ranks_before sc) (array_sort (\<lambda>a b. cmp (g a) (g b)) js)"
      by (rule array_sort_ranked)
    then show ?thesis unfolding positions_def by (rule sorted_wrt_take)
  qed
  ultimately show ?thesis by blast
qed

text \<open>
  Claim C5: for every query, collection, vectors and vocabulary, a sequence returned by
  \<open>performSearch\<close> has at most 3 elements; it lists chunks of the collection, at
  positions \<open>positions\<close>, each with its cosine score, which is strictly positive; the
  scores do not increase along the sequence, and of two results with equal scores the
  one earlier in the collection comes first. With the index built by
  \<open>precomputeVectors\<close> from the collection, \<open>performSearch\<close> does return a sequence.
\<close>

theorem performSearch_ranked:
  "(\<forall>results. performSearch query chunks vs voc = Inr results \<longrightarrow>
      length results \<le> 3
      \<and> (\<exists>positions sc.
            results = map (\<lambda>i. \<lparr>chunk = chunks ! i, score = Some (sc i)\<rparr>) positions
          \<and> (\<forall>i\<in>set positions. i < length chunks \<and> 0 < sc i
                \<and> cosineSimilarity (createTfVector (tokenize query) voc) (array_get vs i)
                    = Inr (Some (sc i)))
          \<and> (\<forall>a b. a < b \<and> b < length positions \<longrightarrow>
                sc (positions ! b) \<le> sc (positions ! a)
                \<and> (sc (positions ! b) = sc (positions ! a) \<longrightarrow> positions ! a < positions ! b))))
   \<and> (\<exists>results. performSearch query chunks (vectors (precomputeVectors chunks))
          (vocab (precomputeVectors chunks)) = Inr results)"
proof (intro conjI allI impI)
  fix results
  assume r: "performSearch query chunks vs voc = Inr results"
  from performSearch_positions [OF r] obtain positions sc where
    p: "results = map (\<lambda>i. \<lparr>chunk = chunks ! i, score = Some (sc i)\<rparr>) positions"
      "length positions \<le> 3"
      "\<forall>i\<in>set positions. i < length chunks \<and> 0 < sc i
               \<and> cosineSimilarity (createTfVector (tokenize query) voc) (array_get vs i)
                   = Inr (Some (sc i))"
      "sorted_wrt (ranks_before sc) positions"
    by blast
  show "length results \<le> 3" using p(1,2) by simp
  have "\<forall>a b. a < b \<and> b < length positions \<longrightarrow>
                sc (positions ! b) \<le> sc (positions ! a)
                \<and> (sc (positions ! b) = sc (positions ! a) \<longrightarrow> positions ! a < positions ! b)"
  proof (intro allI impI)
    fix a b assume "a < b \<and> b < length positions"
    then have "ranks_before sc (positions ! a) (positions ! b)"
      using p(4) by (simp add: sorted_wrt_iff_nth_less)
    then show "sc (positions ! b) \<le> sc (positions ! a)
                \<and> (sc (positions ! b) = sc (positions ! a) \<longrightarrow> positions ! a < positions ! b)"
      by (auto simp: ranks_before_def)
  qed
  then show "\<exists>positions sc.
            results = map (\<lambda>i. \<lparr>chunk = chunks ! i, score = Some (sc i)\<rparr>) positions
          \<and> (\<forall>i\<in>set positions. i < length chunks \<and> 0 < sc i
                \<and> cosineSimilarity (createTfVector (tokenize query) voc) (array_get vs i)
                    = Inr (Some (sc i)))
          \<and> (\<forall>a b. a < b \<and> b < length positions \<longrightarrow>
                sc (positions ! b) \<le> sc (positions ! a)
                \<and> (sc (positions ! b) = sc (positions ! a) \<longrightarrow> positions ! a < positions ! b))"
    using p(1,3) by blast
next
  show "\<exists>results. performSearch query chunks (vectors (precomputeVectors chunks))
          (vocab (precomputeVectors chunks)) = Inr results"
    by (rule performSearch_returns) (simp add: precomputeVectors_def Let_def)
qed

section \<open>A search with ties\<close>

lemma tied_vocab:
  "vocab (precomputeVectors tied_collection) = [(''red'', 0), (''fox'', 1), (''sky'', 2)]"
  by code_simp

lemma tied_vectors:
  "vectors (precomputeVectors tied_collection)
     = [[Some 1, Some 1, Some 0], [Some 0, Some 1, Some 0], [Some 0, Some 0, Some 1],
        [Some 0, Some 2, Some 0], [Some 1, Some 1, Some 0]]"
  by code_simp

lemma tied_query:
  "createTfVector (tokenize ''fox'') (vocab (precomputeVectors tied_collection))
     = [Some 0, Some 1, Some 0]"
  by code_simp

lemma upt_3: "[0..<3] = [0, 1, 2]"
  by code_simp

lemma tied_cos_a:
  "cosineSimilarity [Some 0, Some 1, Some 0] (Some [Some 1, Some 1, Some 0]) = Inr (Some (1 / sqrt 2))"
  by (simp add: cosineSimilarity_def upt_3 num_at_def array_get_def num_add_def num_mul_def
        num_sqrt_def num_div_def)

lemma tied_cos_b:
  "cosineSimilarity [Some 0, Some 1, Some 0] (Some [Some 0, Some 1, Some 0]) = Inr (Some 1)"
  by (simp add: cosineSimilarity_def upt_3 num_at_def array_get_def num_add_def num_mul_def
        num_sqrt_def num_div_def)

lemma tied_cos_c:
  "cosineSimilarity [Some 0, Some 1, Some 0] (Some [Some 0, Some 0, Some 1]) = Inr (Some 0)"
  by (simp add: cosineSimilarity_def upt_3 num_at_def array_get_def num_add_def num_mul_def
        num_sqrt_def num_div_def)

lemma tied_cos_d:
  "cosineSimilarity [Some 0, Some 1, Some 0] (Some [Some 0, Some 2, Some 0]) = Inr (Some 1)"
  by (simp add: cosineSimilarity_def upt_3 num_at_def array_get_def num_add_def num_mul_def
        num_sqrt_def num_div_def)


lemma tied_search:
  "performSearch ''fox'' tied_collection (vectors (precomputeVectors tied_collection))
       (vocab (precomputeVectors tied_collection))
     = Inr [\<lparr>chunk = tied_collection ! 1, score = Some 1\<rparr>,
            \<lparr>chunk = tied_collection ! 3, score = Some 1\<rparr>,
            \<lparr>chunk = tied_collection ! 0, score = Some (1 / sqrt 2)\<rparr>]"
  unfolding performSearch_def Let_def tied_query tied_vectors
  by (simp add: example_query_not_blank tied_collection_def enumerate_eq_zip array_get_def
        upt_rec [of 0 5] upt_rec [of 1 5] upt_rec [of 2 5] upt_rec [of 3 5] upt_rec [of 4 5]
        tied_cos_a tied_cos_b tied_cos_c tied_cos_d num_gt0_def num_sub_def array_sort_def)

theorem performSearch_ranked_witness:
  "performSearch ''fox'' tied_collection (vectors (precomputeVectors tied_collection))
       (vocab (precomputeVectors tied_collection))
     = Inr [\<lparr>chunk = tied_collection ! 1, score = Some 1\<rparr>,
            \<lparr>chunk = tied_collection ! 3, score = Some 1\<rparr>,
            \<lparr>chunk = tied_collection ! 0, score = Some (1 / sqrt 2)\<rparr>]
   \<and> length [\<lparr>chunk = tied_collection ! 1, score = Some 1\<rparr>,
            \<lparr>chunk = tied_collection ! 3, score = Some 1\<rparr>,
            \<lparr>chunk = tied_collection ! 0, score = Some (1 / sqrt 2)\<rparr>] \<le> 3
   \<and> (\<exists>positions sc.
          [\<lparr>chunk = tied_collection ! 1, score = Some 1\<rparr>,
           \<lparr>chunk = tied_collection ! 3, score = Some 1\<rparr>,
           \<lparr>chunk = tied_collection ! 0, score = Some (1 / sqrt 2)\<rparr>]
            = map (\<lambda>i. \<lparr>chunk = tied_collection ! i, score = Some (sc i)\<rparr>) positions
        \<and> (\<forall>i\<in>set positions. i < length tied_collection \<and> 0 < sc i
              \<and> cosineSimilarity
                    (createTfVector (tokenize ''fox'') (vocab (precomputeVectors tied_collection)))
                    (array_get (vectors (precomputeVectors tied_collection)) i)
                  = Inr (Some (sc i)))
        \<and> (\<forall>a b. a < b \<and> b < length positions \<longrightarrow>
              sc (positions ! b) \<le> sc (positions ! a)
              \<and> (sc (positions ! b) = sc (positions ! a) \<longrightarrow> positions ! a < positions ! b)))"
proof -
  note a = tied_search
  note b = performSearch_ranked [of "''fox''" tied_collection
      "vectors (precomputeVectors tied_collection)" "vocab (precomputeVectors tied_collection)",
      THEN conjunct1, rule_format, OF a]
  show ?thesis by (rule conjI [OF a b])
qed

section \<open>Blank queries and vectors of norm zero\<close>

lemma trim_blank: "list_all is_white_space query \<Longrightarrow> trim query = []"
proof -
  assume "list_all is_white_space query"
  then have d: "dropWhile is_white_space query = []"
    by (induction query) simp_all
  show ?thesis by (simp add: trim_def d)
qed

lemma loop_components:
  "fold (\<lambda>i (d, ma, mb). (f i d, g i ma, h i mb)) is (d, ma, mb)
     = (fold f is d, fold g is ma, fold h is mb)"
  by (induction "is" arbitrary: d ma mb) simp_all

lemma sum_squares_snoc:
  "sum_squares (xs @ [x]) = num_add (sum_squares xs) (num_mul x x)"
  by (cases x) (simp_all add: sum_squares_def num_add_def num_mul_def power2_eq_square)

lemma loop_sum_squares:
  "n \<le> length v \<Longrightarrow>
   fold (\<lambda>i m. num_add m (num_mul (num_at v i) (num_at v i))) [0..<n] (Some 0)
     = sum_squares (take n v)"
proof (induction n)
  case 0
  then show ?case by (simp add: sum_squares_def)
next
  case (Suc n)
  then have n: "n < length v" by simp
  have t: "take (Suc n) v = take n v @ [v ! n]" using n by (simp add: take_Suc_conv_app_nth)
  have "num_at v n = v ! n" using n by (simp add: num_at_def array_get_def)
  then show ?case using Suc.IH n unfolding t sum_squares_snoc by simp
qed

lemma num_sqrt_sum_squares: "num_sqrt (sum_squares v) = vector_norm v"
proof -
  have "0 \<le> (\<Sum>x\<leftarrow>v. (the x)\<^sup>2)" by (rule sum_list_nonneg) auto
  then show ?thesis by (simp add: num_sqrt_def sum_squares_def vector_norm_def not_less)
qed

lemma vector_norm_zero_iff: "vector_norm v = Some 0 \<longleftrightarrow> (\<forall>x\<in>set v. x = Some 0)"
proof
  assume a: "vector_norm v = Some 0"
  then have nn: "None \<notin> set v" and s0: "(\<Sum>x\<leftarrow>v. (the x)\<^sup>2) = 0"
    by (auto simp: vector_norm_def split: if_splits)
  have "\<forall>y\<in>set (map (\<lambda>x. (the x)\<^sup>2) v). y = 0"
    using s0 by (subst (asm) sum_list_nonneg_eq_0_iff) auto
  then have sq: "\<forall>x\<in>set v. (the x)\<^sup>2 = 0" by simp
  show "\<forall>x\<in>set v. x = Some 0"
  proof
    fix x assume x: "x \<in> set v"
    have "x \<noteq> None"
    proof
      assume "x = None"
      with x nn show False by simp
    qed
    then obtain r where r: "x = Some r" by auto
    then have "r\<^sup>2 = 0" using sq x by auto
    then show "x = Some 0" using r by simp
  qed
next
  assume a: "\<forall>x\<in>set v. x = Some 0"
  then have "None \<notin> set v" by auto
  moreover have "(\<Sum>x\<leftarrow>v. (the x)\<^sup>2) = 0" using a by (induction v) auto
  ultimately show "vector_norm v = Some 0" by (simp add: vector_norm_def)
qed

lemma cosineSimilarity_mags:
  "cosineSimilarity a (Some b) =
     (let dotProduct = fold (\<lambda>i d. num_add d (num_mul (num_at a i) (num_at b i))) [0..<length a] (Some 0);
          magA = num_sqrt (fold (\<lambda>i m. num_add m (num_mul (num_at a i) (num_at a i))) [0..<length a] (Some 0));
          magB = num_sqrt (fold (\<lambda>i m. num_add m (num_mul (num_at b i) (num_at b i))) [0..<length a] (Some 0))
      in if magA = Some 0 \<or> magB = Some 0 then Inr (Some 0)
         else Inr (num_div dotProduct (num_mul magA magB)))"
  by (simp add: cosineSimilarity_def loop_components Let_def)

lemma cosineSimilarity_zero_norm_a:
  assumes "vector_norm a = Some 0"
  shows "cosineSimilarity a (Some b) = Inr (Some 0)"
proof -
  have "num_sqrt (fold (\<lambda>i m. num_add m (num_mul (num_at a i) (num_at a i))) [0..<length a] (Some 0))
      = Some 0"
    using assms by (simp add: loop_sum_squares num_sqrt_sum_squares)
  then show ?thesis by (simp add: cosineSimilarity_mags Let_def)
qed

lemma cosineSimilarity_zero_norm_b:
  assumes "vector_norm b = Some 0" and "length a \<le> length b"
  shows "cosineSimilarity a (Some b) = Inr (Some 0)"
proof -
  have "\<forall>x\<in>set (take (length a) b). x = Some 0"
    using assms(1) by (auto simp: vector_norm_zero_iff dest: in_set_takeD)
  then have "vector_norm (take (length a) b) = Some 0" by (simp add: vector_norm_zero_iff)
  then have "num_sqrt (fold (\<lambda>i m. num_add m (num_mul (num_at b i) (num_at b i))) [0..<length a] (Some 0))
      = Some 0"
    using assms(2) by (simp add: loop_sum_squares num_sqrt_sum_squares)
  then show ?thesis by (simp add: cosineSimilarity_mags Let_def)
qed

lemma createTfVector_unknown:
  assumes "\<forall>t\<in>set tokens. map_get voc t = None"
  shows "createTfVector tokens voc = replicate (map_size voc) (Some 0)"
proof -
  have "fold (\<lambda>token vector. case map_get voc token of
               Some tokenIndex \<Rightarrow> array_increment vector tokenIndex
             | None \<Rightarrow> vector) tokens v = v" for v
    using assms by (induction tokens arbitrary: v) simp_all
  then show ?thesis by (simp add: createTfVector_def)
qed

lemma map_throwing_all:
  "\<forall>x\<in>set xs. f x = Inr (g x) \<Longrightarrow> map_throwing f xs = Inr (map g xs)"
  by (induction xs) simp_all

lemma performSearch_unknown_tokens:
  assumes "\<forall>t\<in>set (tokenize query). map_get voc t = None" and "length chunks \<le> length vs"
  shows "performSearch query chunks vs voc = Inr []"
proof (cases "trim query = []")
  case True
  then show ?thesis by (simp add: performSearch_def)
next
  case False
  define qv where "qv = createTfVector (tokenize query) voc"
  have "qv = replicate (map_size voc) (Some 0)"
    unfolding qv_def using assms(1) by (rule createTfVector_unknown)
  then have norm: "vector_norm qv = Some 0" by (simp add: vector_norm_zero_iff)
  let ?F = "\<lambda>(index, chunk).
              case cosineSimilarity qv (array_get vs index) of
                Inl e \<Rightarrow> Inl e
              | Inr s \<Rightarrow> Inr \<lparr>chunk = chunk, score = s\<rparr>"
  have "\<forall>x\<in>set (enumerate 0 chunks). ?F x = Inr \<lparr>chunk = snd x, score = Some 0\<rparr>"
  proof
    fix x assume "x \<in> set (enumerate 0 chunks)"
    then have "fst x < length vs" using assms(2) by (simp add: in_set_enumerate_eq)
    then have "array_get vs (fst x) = Some (vs ! fst x)" by (simp add: array_get_def)
    then show "?F x = Inr \<lparr>chunk = snd x, score = Some 0\<rparr>"
      using cosineSimilarity_zero_norm_a [OF norm] by (cases x) simp
  qed
  then have "map_throwing ?F (enumerate 0 chunks)
      = Inr (map (\<lambda>x. \<lparr>chunk = snd x, score = Some 0\<rparr>) (enumerate 0 chunks))"
    by (rule map_throwing_all)
  then show ?thesis using False
    by (simp add: performSearch_def Let_def qv_def [symmetric] filter_map comp_def num_gt0_def
          array_sort_def)
qed

text \<open>
  Claim C8, amended: for every collection, vectors and vocabulary, \<open>performSearch\<close>
  returns the empty sequence for a query that is empty or has white space only;
  \<open>cosineSimilarity\<close> returns \<open>0\<close> when the norm of its first vector is \<open>0\<close>, and when the
  norm of its second vector is \<open>0\<close> and that vector is at least as long as the first (in
  an index all vectors have the length of the vocabulary); so a query none of whose
  tokens is in the vocabulary yields the empty sequence, given a vector for every chunk,
  as there is in the index that \<open>precomputeVectors\<close> builds from the collection.
\<close>

theorem blank_query_and_zero_norm:
  "(list_all is_white_space query \<longrightarrow> performSearch query chunks vs voc = Inr [])
   \<and> (vector_norm a = Some 0 \<longrightarrow> cosineSimilarity a (Some b) = Inr (Some 0))
   \<and> (vector_norm b = Some 0 \<and> length a \<le> length b \<longrightarrow> cosineSimilarity a (Some b) = Inr (Some 0))
   \<and> ((\<forall>t\<in>set (tokenize query). map_get voc t = None) \<and> length chunks \<le> length vs \<longrightarrow>
        performSearch query chunks vs voc = Inr [])
   \<and> ((\<forall>t\<in>set (tokenize query). map_get (vocab (precomputeVectors chunks)) t = None) \<longrightarrow>
        performSearch query chunks (vectors (precomputeVectors chunks))
          (vocab (precomputeVectors chunks)) = Inr [])"
proof (intro conjI impI)
  assume "list_all is_white_space query"
  then have "trim query = []" by (rule trim_blank)
  then show "performSearch query chunks vs voc = Inr []" by (simp add: performSearch_def)
next
  assume "vector_norm a = Some 0"
  then show "cosineSimilarity a (Some b) = Inr (Some 0)" by (rule cosineSimilarity_zero_norm_a)
next
  assume "vector_norm b = Some 0 \<and> length a \<le> length b"
  then show "cosineSimilarity a (Some b) = Inr (Some 0)"
    using cosineSimilarity_zero_norm_b by blast
next
  assume "(\<forall>t\<in>set (tokenize query). map_get voc t = None) \<and> length chunks \<le> length vs"
  then show "performSearch query chunks vs voc = Inr []"
    using performSearch_unknown_tokens by blast
next
  assume "\<forall>t\<in>set (tokenize query). map_get (vocab (precomputeVectors chunks)) t = None"
  moreover have "length chunks \<le> length (vectors (precomputeVectors chunks))"
    by (simp add: precomputeVectors_def Let_def)
  ultimately show "performSearch query chunks (vectors (precomputeVectors chunks))
      (vocab (precomputeVectors chunks)) = Inr []"
    by (rule performSearch_unknown_tokens)
qed


theorem blank_query_and_zero_norm_witness:
  "performSearch ''  '' example_collection (vectors example_index) (vocab example_index) = Inr []
   \<and> cosineSimilarity [Some 0, Some 0] (Some [Some 3, Some 4]) = Inr (Some 0)
   \<and> cosineSimilarity [Some 3, Some 4] (Some [Some 0, Some 0]) = Inr (Some 0)
   \<and> performSearch ''cat'' example_collection (vectors example_index) (vocab example_index)
       = Inr []
   \<and> performSearch ''cat'' example_collection (vectors (precomputeVectors example_collection))
         (vocab (precomputeVectors example_collection))
       = Inr []"
proof -
  have blank: "list_all is_white_space ''  ''" by code_simp
  have norm: "vector_norm [Some 0, Some 0] = Some 0" by (simp add: vector_norm_def)
  have unknown: "\<forall>t\<in>set (tokenize ''cat''). map_get (vocab example_index) t = None"
    by code_simp
  have enough: "length example_collection \<le> length (vectors example_index)"
    by (simp add: example_vectors example_collection_def)
  note t1 = blank_query_and_zero_norm [of "''  ''" example_collection "vectors example_index"
      "vocab example_index" "[Some 0, Some 0]" "[Some 3, Some 4]"]
  note t2 = blank_query_and_zero_norm [of "''cat''" example_collection "vectors example_index"
      "vocab example_index" "[Some 3, Some 4]" "[Some 0, Some 0]"]
  have 1: "performSearch ''  '' example_collection (vectors example_index) (vocab example_index)
      = Inr []"
    by (rule t1 [THEN conjunct1, rule_format, OF blank])
  have 2: "cosineSimilarity [Some 0, Some 0] (Some [Some 3, Some 4]) = Inr (Some 0)"
    by (rule t1 [THEN conjunct2, THEN conjunct1, rule_format, OF norm])
  have 3: "cosineSimilarity [Some 3, Some 4] (Some [Some 0, Some 0]) = Inr (Some 0)"
    by (rule t2 [THEN conjunct2, THEN conjunct2, THEN conjunct1, rule_format]) (simp add: norm)
  have 4: "performSearch ''cat'' example_collection (vectors example_index) (vocab example_index)
      = Inr []"
    by (rule t2 [THEN conjunct2, THEN conjunct2, THEN conjunct2, THEN conjunct1, rule_format])
      (rule conjI [OF unknown enough])
  have 5: "performSearch ''cat'' example_collection (vectors (precomputeVectors example_collection))
        (vocab (precomputeVectors example_collection))
      = Inr []"
    by (rule t2 [THEN conjunct2, THEN conjunct2, THEN conjunct2, THEN conjunct2, THEN mp])
      (rule unknown [unfolded example_index_def])
  show ?thesis by (intro conjI 1 2 3 4 5)
qed

lemma upt_2: "[0..<2] = [0, 1]"
  by code_simp

lemma short_second_vector:
  "cosineSimilarity [Some 3, Some 4] (Some []) = Inr None"
  by (simp add: cosineSimilarity_def upt_2 num_at_def array_get_def num_add_def num_mul_def
        num_sqrt_def num_div_def)

lemma cat_query_vector: "createTfVector (tokenize ''cat'') [(''red'', 0)] = [Some 0]"
  by code_simp

lemma cat_not_blank: "trim ''cat'' \<noteq> []"
  by code_simp

lemma cat_tokens: "tokenize ''cat'' = [''cat'']"
  by code_simp

lemma missing_vector_search:
  "performSearch ''cat'' example_collection [] [(''red'', 0)] = Inl TypeError"
  unfolding performSearch_def Let_def cat_query_vector
  by (simp add: cat_not_blank example_collection_def enumerate_eq_zip array_get_def
        cosineSimilarity_def)

text \<open>
  Claim C8, as stated: \<open>cosineSimilarity\<close> returns \<open>0\<close> whenever either vector's norm is
  \<open>0\<close>, and for every collection and index a query all of whose tokens are outside the
  vocabulary yields an empty result. The empty vector has norm \<open>0\<close>, and
  \<open>cosineSimilarity([3, 4], [])\<close> is \<open>NaN\<close>: the loop reads the second vector past its end.
  With the vocabulary \<open>{red: 0}\<close> and no vectors, the query \<open>cat\<close>, whose one token is
  outside the vocabulary, makes \<open>performSearch\<close> on the example collection throw a
  \<open>TypeError\<close>: \<open>vectors[0]\<close> is \<open>undefined\<close>.
\<close>

theorem zero_norm_needs_matching_index:
  "vector_norm [] = Some 0
   \<and> cosineSimilarity [Some 3, Some 4] (Some []) = Inr None
   \<and> tokenize ''cat'' = [''cat'']
   \<and> map_get [(''red'', 0)] ''cat'' = None
   \<and> performSearch ''cat'' example_collection [] [(''red'', 0)] = Inl TypeError"
  by (simp add: vector_norm_def short_second_vector cat_tokens map_get_def
        missing_vector_search)

section \<open>The vocabulary and the term vectors\<close>

lemma set_first_seen: "set (first_seen xs) = set xs"
  by (induction xs) auto

lemma distinct_first_seen: "distinct (first_seen xs)"
  by (induction xs) (auto simp: distinct_removeAll)

lemma length_first_seen: "length (first_seen xs) = card (set xs)"
  using distinct_card [OF distinct_first_seen, of xs] by (simp add: set_first_seen)

lemma first_seen_snoc:
  "first_seen (xs @ [x]) = (if x \<in> set xs then first_seen xs else first_seen xs @ [x])"
  by (induction xs) auto

lemma maximal_word_runs_Nil: "maximal_word_runs [] = []"
  by (simp add: maximal_word_runs.simps)

lemma maximal_word_runs_sep:
  "\<not> is_word_char c \<Longrightarrow> maximal_word_runs (c # cs) = maximal_word_runs cs"
  by (subst maximal_word_runs.simps, subst (2) maximal_word_runs.simps) simp

lemma maximal_word_runs_word:
  "is_word_char c \<Longrightarrow>
   maximal_word_runs (c # cs)
     = (c # takeWhile is_word_char cs) # maximal_word_runs (dropWhile is_word_char cs)"
  by (subst maximal_word_runs.simps) simp

lemma word_runs_spec:
  "word_runs run cs =
     (if run = [] then maximal_word_runs cs
      else (run @ takeWhile is_word_char cs) # maximal_word_runs (dropWhile is_word_char cs))"
proof (induction cs arbitrary: run)
  case Nil
  then show ?case by (simp add: maximal_word_runs_Nil)
next
  case (Cons c cs)
  show ?case
  proof (cases "is_word_char c")
    case True
    then show ?thesis by (simp add: Cons.IH maximal_word_runs_word)
  next
    case False
    then show ?thesis by (simp add: Cons.IH maximal_word_runs_sep)
  qed
qed

lemma tokenize_maximal_runs: "tokenize s = maximal_word_runs (toLowerCase s)"
  by (simp add: tokenize_def word_runs_spec)


lemma update_new_key: "k \<notin> fst ` set al \<Longrightarrow> AList.update k v al = al @ [(k, v)]"
  by (induction al) auto

lemma fold_fold_concat: "fold (fold f) xss s = fold f (concat xss) s"
  by (induction xss arbitrary: s) simp_all

lemma update_zip_new:
  assumes "t \<notin> set ks"
  shows "AList.update t (length ks) (zip ks [0..<length ks])
           = zip (ks @ [t]) [0..<length (ks @ [t])]"
proof -
  have "t \<notin> fst ` set (zip ks [0..<length ks])"
    using assms by (auto dest: set_zip_leftD)
  then have "AList.update t (length ks) (zip ks [0..<length ks])
      = zip ks [0..<length ks] @ [(t, length ks)]"
    by (rule update_new_key)
  then show ?thesis by simp
qed

lemma map_of_zip_upt_None:
  "map_of (zip ks [0..<length ks]) t = None \<longleftrightarrow> t \<notin> set ks"
  by (simp add: map_of_zip_is_None)

lemma vocabulary_step:
  "fold (\<lambda>token (vocab, index).
           if \<not> map_has vocab token then (map_set vocab token index, index + 1)
           else (vocab, index)) tokens ([], 0)
     = (zip (first_seen tokens) [0..<length (first_seen tokens)], length (first_seen tokens))"
proof (induction tokens rule: rev_induct)
  case Nil
  then show ?case by simp
next
  case (snoc t tokens)
  show ?case
  proof (cases "t \<in> set tokens")
    case True
    then show ?thesis
      using snoc by (simp add: first_seen_snoc map_has_def map_of_zip_upt_None set_first_seen)
  next
    case False
    then have "t \<notin> set (first_seen tokens)" by (simp add: set_first_seen)
    from update_zip_new [OF this] False show ?thesis
      using snoc
      by (simp add: first_seen_snoc map_has_def map_set_def map_of_zip_upt_None set_first_seen)
  qed
qed

lemma createVocabulary_first_seen:
  "createVocabulary tokenizedDocs
     = zip (first_seen (concat tokenizedDocs)) [0..<length (first_seen (concat tokenizedDocs))]"
  by (simp add: createVocabulary_def fold_fold_concat vocabulary_step)


lemma map_get_zip_upt:
  assumes "distinct ks"
  shows "map_get (zip ks [0..<length ks]) t = Some i \<longleftrightarrow> i < length ks \<and> ks ! i = t"
proof
  assume "map_get (zip ks [0..<length ks]) t = Some i"
  then have "(t, i) \<in> set (zip ks [0..<length ks])"
    by (simp add: map_get_def map_of_SomeD)
  then show "i < length ks \<and> ks ! i = t"
    by (auto simp: in_set_zip)
next
  assume a: "i < length ks \<and> ks ! i = t"
  then have "map_of (zip ks [0..<length ks]) (ks ! i) = Some ([0..<length ks] ! i)"
    using assms by (intro map_of_zip_nth) simp_all
  then show "map_get (zip ks [0..<length ks]) t = Some i"
    using a by (simp add: map_get_def)
qed

lemma map_size_zip_upt: "distinct ks \<Longrightarrow> map_size (zip ks [0..<length ks]) = length ks"
  by (simp add: map_size_def)

lemma increment_counts:
  assumes "distinct ks" and "i < length ks"
  shows "array_increment (map (\<lambda>k. Some (real (c k))) ks) i
           = map (\<lambda>k. Some (real ((c(ks ! i := c (ks ! i) + 1)) k))) ks"
proof (rule nth_equalityI)
  show "length (array_increment (map (\<lambda>k. Some (real (c k))) ks) i)
      = length (map (\<lambda>k. Some (real ((c(ks ! i := c (ks ! i) + 1)) k))) ks)"
    using assms(2) by (simp add: array_increment_def)
next
  fix j assume "j < length (array_increment (map (\<lambda>k. Some (real (c k))) ks) i)"
  then have j: "j < length ks" using assms(2) by (simp add: array_increment_def)
  show "array_increment (map (\<lambda>k. Some (real (c k))) ks) i ! j
      = map (\<lambda>k. Some (real ((c(ks ! i := c (ks ! i) + 1)) k))) ks ! j"
  proof (cases "j = i")
    case True
    then show ?thesis using assms(2) by (simp add: array_increment_def num_add_def)
  next
    case False
    then have "ks ! j \<noteq> ks ! i"
      using assms j by (simp add: nth_eq_iff_index_eq)
    then show ?thesis using assms(2) j False by (simp add: array_increment_def)
  qed
qed

lemma tf_loop:
  assumes "distinct ks"
  shows "fold (\<lambda>token vector.
             case map_get (zip ks [0..<length ks]) token of
               Some tokenIndex \<Rightarrow> array_increment vector tokenIndex
             | None \<Rightarrow> vector)
           tokens (map (\<lambda>k. Some (real (c k))) ks)
         = map (\<lambda>k. Some (real (c k + count_list tokens k))) ks"
proof (induction tokens arbitrary: c)
  case Nil
  then show ?case by simp
next
  case (Cons t tokens)
  show ?case
  proof (cases "t \<in> set ks")
    case True
    then obtain i where i: "i < length ks" "ks ! i = t" by (auto simp: in_set_conv_nth)
    then have g: "map_get (zip ks [0..<length ks]) t = Some i"
      using assms by (simp add: map_get_zip_upt)
    have "map (\<lambda>k. Some (real ((c(t := c t + 1)) k + count_list tokens k))) ks
        = map (\<lambda>k. Some (real (c k + count_list (t # tokens) k))) ks"
      by (rule map_cong) auto
    then show ?thesis
      using Cons.IH [of "c(t := c t + 1)"] increment_counts [OF assms i(1), of c] i(2) g
      by simp
  next
    case False
    then have g: "map_get (zip ks [0..<length ks]) t = None"
      by (simp add: map_get_def map_of_zip_upt_None)
    have "map (\<lambda>k. Some (real (c k + count_list tokens k))) ks
        = map (\<lambda>k. Some (real (c k + count_list (t # tokens) k))) ks"
      using False by (intro map_cong) auto
    then show ?thesis using Cons.IH [of c] g by simp
  qed
qed

lemma createTfVector_counts:
  assumes "distinct ks"
  shows "createTfVector tokens (zip ks [0..<length ks])
           = map (\<lambda>k. Some (real (count_list tokens k))) ks"
proof -
  have "replicate (length ks) (Some (0::real)) = map (\<lambda>k. Some (real ((\<lambda>k. 0) k))) ks"
    by (simp add: map_replicate_const)
  then show ?thesis
    using tf_loop [OF assms, of tokens "\<lambda>k. 0"]
    by (simp add: createTfVector_def map_size_zip_upt assms)
qed

text \<open>
  Claim C6: after \<open>precomputeVectors\<close> on a collection, with the tokens of a chunk being
  the maximal runs of word characters of its lowercased text, the vocabulary pairs the
  distinct tokens of the collection, in first-seen order over the chunks in collection
  order and the tokens in occurrence order, with the indices \<open>0, 1, 2, ...\<close>; its size is
  the number of distinct tokens; and there is one vector per chunk, of the size of the
  vocabulary, whose entry at a token's index is the number of occurrences of the token
  in the chunk (so \<open>0\<close> for a token absent from it).
\<close>

theorem precomputeVectors_index:
  "vocab (precomputeVectors chunks)
     = zip (first_seen (concat (map (\<lambda>c. tokenize (text_chunk c)) chunks)))
         [0..<card (set (concat (map (\<lambda>c. tokenize (text_chunk c)) chunks)))]
   \<and> map_size (vocab (precomputeVectors chunks))
       = card (set (concat (map (\<lambda>c. tokenize (text_chunk c)) chunks)))
   \<and> length (vectors (precomputeVectors chunks)) = length chunks
   \<and> (\<forall>k<length chunks.
         tokenize (text_chunk (chunks ! k)) = maximal_word_runs (toLowerCase (text_chunk (chunks ! k)))
       \<and> length (vectors (precomputeVectors chunks) ! k) = map_size (vocab (precomputeVectors chunks))
       \<and> (\<forall>t i. map_get (vocab (precomputeVectors chunks)) t = Some i \<longrightarrow>
             vectors (precomputeVectors chunks) ! k ! i
               = Some (real (count_list (tokenize (text_chunk (chunks ! k))) t))))"
proof -
  define docs where "docs = map (\<lambda>c. tokenize (text_chunk c)) chunks"
  define ks where "ks = first_seen (concat docs)"
  have d: "distinct ks" by (simp add: ks_def distinct_first_seen)
  have n: "length ks = card (set (concat docs))" by (simp add: ks_def length_first_seen)
  have v: "vocab (precomputeVectors chunks) = zip ks [0..<length ks]"
    by (simp add: precomputeVectors_def Let_def createVocabulary_first_seen ks_def docs_def)
  have vs: "vectors (precomputeVectors chunks)
      = map (\<lambda>tokens. map (\<lambda>k. Some (real (count_list tokens k))) ks) docs"
    using v by (simp add: precomputeVectors_def Let_def createTfVector_counts [OF d] docs_def)
  have size: "map_size (vocab (precomputeVectors chunks)) = length ks"
    by (simp add: v map_size_zip_upt d)
  have entries: "vectors (precomputeVectors chunks) ! k ! i
      = Some (real (count_list (tokenize (text_chunk (chunks ! k))) t))"
    if "k < length chunks" and "map_get (vocab (precomputeVectors chunks)) t = Some i" for k t i
  proof -
    from that(2) have "i < length ks" "ks ! i = t" by (simp_all add: v map_get_zip_upt [OF d])
    then show ?thesis using that(1) by (simp add: vs docs_def)
  qed
  show ?thesis
  proof (intro conjI allI impI)
    show "vocab (precomputeVectors chunks)
        = zip (first_seen (concat (map (\<lambda>c. tokenize (text_chunk c)) chunks)))
            [0..<card (set (concat (map (\<lambda>c. tokenize (text_chunk c)) chunks)))]"
      using v n by (simp add: ks_def docs_def)
    show "map_size (vocab (precomputeVectors chunks))
        = card (set (concat (map (\<lambda>c. tokenize (text_chunk c)) chunks)))"
      using size n by (simp add: docs_def)
    show "length (vectors (precomputeVectors chunks)) = length chunks"
      by (simp add: vs docs_def)
  next
    fix k assume k: "k < length chunks"
    show "tokenize (text_chunk (chunks ! k))
        = maximal_word_runs (toLowerCase (text_chunk (chunks ! k)))"
      by (rule tokenize_maximal_runs)
    show "length (vectors (precomputeVectors chunks) ! k)
        = map_size (vocab (precomputeVectors chunks))"
      using k by (simp add: size) (simp add: vs docs_def)
  next
    fix k t i
    assume "k < length chunks" and "map_get (vocab (precomputeVectors chunks)) t = Some i"
    then show "vectors (precomputeVectors chunks) ! k ! i
        = Some (real (count_list (tokenize (text_chunk (chunks ! k))) t))"
      by (rule entries)
  qed
qed


theorem precomputeVectors_index_witness:
  "vocab (precomputeVectors example_collection)
     = zip (first_seen (concat (map (\<lambda>c. tokenize (text_chunk c)) example_collection)))
         [0..<card (set (concat (map (\<lambda>c. tokenize (text_chunk c)) example_collection)))]
   \<and> length (vectors (precomputeVectors example_collection) ! 0)
       = map_size (vocab (precomputeVectors example_collection))
   \<and> vectors (precomputeVectors example_collection) ! 0 ! 1
       = Some (real (count_list (tokenize (text_chunk (example_collection ! 0))) ''fox''))"
proof -
  note t = precomputeVectors_index [of example_collection]
  have k: "0 < length example_collection" by (simp add: example_collection_def)
  have g: "map_get (vocab (precomputeVectors example_collection)) ''fox'' = Some 1"
    by code_simp
  note per_chunk = t [THEN conjunct2, THEN conjunct2, THEN conjunct2, rule_format, OF k]
  show ?thesis
    by (intro conjI t [THEN conjunct1] per_chunk [THEN conjunct2, THEN conjunct1]
          per_chunk [THEN conjunct2, THEN conjunct2, rule_format, OF g])
qed

section \<open>Validation\<close>

lemma typeof_string: "typeof v = ''string'' \<longleftrightarrow> (\<exists>s. v = Some (JStr s))"
proof (cases v)
  case None
  then show ?thesis by simp
next
  case (Some j)
  then show ?thesis by (cases j) simp_all
qed

lemma typeof_number: "typeof v = ''number'' \<longleftrightarrow> (\<exists>n. v = Some (JNum n))"
proof (cases v)
  case None
  then show ?thesis by simp
next
  case (Some j)
  then show ?thesis by (cases j) simp_all
qed

lemma validate_item_record:
  assumes "is_chunk_record item"
  shows "\<exists>c. validate_item item = Inr c"
proof -
  from assms obtain members where item: "item = JObj members"
    by (cases item) (simp_all add: is_chunk_record_def)
  with assms obtain i s t n where
    "map_of members ''id'' = Some (JStr i)" "map_of members ''source'' = Some (JStr s)"
    "map_of members ''text'' = Some (JStr t)" "map_of members ''startIndex'' = Some (JNum n)"
    by (auto simp: is_chunk_record_def typeof_string typeof_number)
  then show ?thesis by (simp add: validate_item_def item)
qed

lemma validate_item_Inr:
  assumes "validate_item item = Inr c"
  shows "is_chunk_record item
       \<and> get_field item ''id'' = Some (JStr (id_chunk c))
       \<and> get_field item ''source'' = Some (JStr (source c))
       \<and> get_field item ''text'' = Some (JStr (text_chunk c))
       \<and> get_field item ''startIndex'' = Some (JNum (startIndex c))
       \<and> extra c = other_fields item"
proof -
  from assms obtain members where item: "item = JObj members"
    by (cases item) (simp_all add: validate_item_def)
  from assms obtain i where i: "map_of members ''id'' = Some (JStr i)"
    unfolding validate_item_def item
    by (cases "map_of members ''id''") (auto split: json.splits)
  from assms i obtain s where s: "map_of members ''source'' = Some (JStr s)"
    unfolding validate_item_def item
    by (cases "map_of members ''source''") (auto split: json.splits)
  from assms i s obtain t where t: "map_of members ''text'' = Some (JStr t)"
    unfolding validate_item_def item
    by (cases "map_of members ''text''") (auto split: json.splits)
  from assms i s t obtain n where n: "map_of members ''startIndex'' = Some (JNum n)"
    unfolding validate_item_def item
    by (cases "map_of members ''startIndex''") (auto split: json.splits)
  from assms have "c = \<lparr>id_chunk = i, source = s, text_chunk = t, startIndex = n,
      extra = other_fields item\<rparr>"
    by (simp add: validate_item_def item i s t n)
  then show ?thesis by (simp add: item i s t n is_chunk_record_def)
qed

lemma validate_item_Inl:
  assumes "validate_item item = Inl e"
  shows "(e = NonObjectItem \<and> (typeof (Some item) \<noteq> ''object'' \<or> item = JNull))
       \<or> (\<exists>field. e = InvalidField field (typeof (get_field item field)) item
             \<and> field \<in> set [''id'', ''source'', ''text'', ''startIndex'']
             \<and> typeof (get_field item field) \<noteq> expected_type field)"
proof (cases "typeof (Some item) \<noteq> ''object'' \<or> item = JNull")
  case True
  then show ?thesis using assms by (auto simp: validate_item_def)
next
  case False
  note obj = this
  show ?thesis
  proof (cases "typeof (get_field item ''id'') = ''string''")
    case False
    then have "e = InvalidField ''id'' (typeof (get_field item ''id'')) item"
      using assms obj
      by (auto simp: validate_item_def typeof_string split: option.splits json.splits)
    then show ?thesis using False by (simp add: expected_type_def)
  next
    case True
    then obtain i where i: "get_field item ''id'' = Some (JStr i)" by (auto simp: typeof_string)
    show ?thesis
    proof (cases "typeof (get_field item ''source'') = ''string''")
      case False
      then have "e = InvalidField ''source'' (typeof (get_field item ''source'')) item"
        using assms obj i
        by (auto simp: validate_item_def typeof_string split: option.splits json.splits)
      then show ?thesis using False by (simp add: expected_type_def)
    next
      case True
      then obtain s where s: "get_field item ''source'' = Some (JStr s)"
        by (auto simp: typeof_string)
      show ?thesis
      proof (cases "typeof (get_field item ''text'') = ''string''")
        case False
        then have "e = InvalidField ''text'' (typeof (get_field item ''text'')) item"
          using assms obj i s
          by (auto simp: validate_item_def typeof_string split: option.splits json.splits)
        then show ?thesis using False by (simp add: expected_type_def)
      next
        case True
        then obtain t where t: "get_field item ''text'' = Some (JStr t)"
          by (auto simp: typeof_string)
        have nn: "typeof (get_field item ''startIndex'') \<noteq> ''number''"
          using assms obj i s t
          by (auto simp: validate_item_def typeof_number)
        then have "e = InvalidField ''startIndex'' (typeof (get_field item ''startIndex'')) item"
          using assms obj i s t
          by (auto simp: validate_item_def typeof_number split: option.splits json.splits)
        then show ?thesis using nn by (simp add: expected_type_def)
      qed
    qed
  qed
qed


lemma validate_items_Inr:
  "validate_items items = Inr cs \<Longrightarrow>
   length cs = length items \<and> (\<forall>i<length items. validate_item (items ! i) = Inr (cs ! i))"
proof (induction items arbitrary: cs)
  case Nil
  then show ?case by simp
next
  case (Cons item items)
  from Cons.prems obtain c cs' where c: "validate_item item = Inr c"
    and rest: "validate_items items = Inr cs'" and cs: "cs = c # cs'"
    by (auto split: sum.splits)
  from Cons.IH [OF rest] have len: "length cs' = length items"
    and nth: "\<forall>i<length items. validate_item (items ! i) = Inr (cs' ! i)" by simp_all
  show ?case
  proof (intro conjI allI impI)
    show "length cs = length (item # items)" using len cs by simp
  next
    fix i assume "i < length (item # items)"
    then show "validate_item ((item # items) ! i) = Inr (cs ! i)"
      using c nth cs by (cases i) simp_all
  qed
qed

lemma validate_items_Inl:
  "validate_items items = Inl e \<Longrightarrow> \<exists>item\<in>set items. validate_item item = Inl e"
proof (induction items)
  case Nil
  then show ?case by simp
next
  case (Cons item items)
  then show ?case by (auto split: sum.splits)
qed

lemma validate_items_records:
  assumes "validate_items items = Inr cs"
  shows "\<forall>item\<in>set items. is_chunk_record item"
proof
  fix item assume "item \<in> set items"
  then obtain i where "i < length items" "items ! i = item" by (auto simp: in_set_conv_nth)
  then have "validate_item item = Inr (cs ! i)"
    using validate_items_Inr [OF assms] by auto
  then show "is_chunk_record item" using validate_item_Inr by blast
qed

lemma validateAndProcessData_Inr:
  assumes "validateAndProcessData data = Inr (cs, sm)"
  shows "\<exists>items. data = JArr items \<and> validate_items items = Inr cs"
  using assms
  by (cases data) (auto simp: validateAndProcessData_def Let_def split: sum.splits prod.splits)

lemma validateAndProcessData_Inl:
  assumes "validateAndProcessData data = Inl e"
  shows "(e = NotAList \<and> (\<forall>items. data \<noteq> JArr items))
       \<or> (\<exists>items. data = JArr items \<and> validate_items items = Inl e)"
  using assms
  by (cases data) (auto simp: validateAndProcessData_def Let_def split: sum.splits prod.splits)

lemma validateAndProcessData_summary:
  assumes "validateAndProcessData data = Inr (cs, sm)"
  shows "sm = \<lparr>totalChunks = length cs,
               uniqueSources = length (object_keys (fst (tally_loop cs))),
               topSources = take 10
                 (array_sort (\<lambda>(k, a) (l, b). num_sub (to_number b) (to_number a))
                   (object_entries (fst (tally_loop cs)))),
               totalTextLength = snd (tally_loop cs)\<rparr>"
  using assms
  by (cases data)
    (auto simp: validateAndProcessData_def Let_def tally_loop_def split: sum.splits prod.splits)

lemma validateAndProcessData_accepts:
  assumes "validate_items items = Inr cs"
  shows "\<exists>sm. validateAndProcessData (JArr items) = Inr (cs, sm)"
  using assms by (simp add: validateAndProcessData_def Let_def split: prod.splits)


section \<open>The summary\<close>

lemma map_of_tabulate:
  "map_of (map (\<lambda>k. (k, f k)) ks) s = (if s \<in> set ks then Some (f s) else None)"
  by (induction ks) auto

lemma update_tabulate:
  "s \<in> set ks \<Longrightarrow> distinct ks \<Longrightarrow>
   AList.update s v (map (\<lambda>k. (k, f k)) ks) = map (\<lambda>k. (k, (f(s := v)) k)) ks"
proof (induction ks)
  case Nil
  then show ?case by simp
next
  case (Cons k ks)
  show ?case
  proof (cases "k = s")
    case True
    then have "s \<notin> set ks" using Cons.prems(2) by simp
    then have "map (\<lambda>k. (k, (f(s := v)) k)) ks = map (\<lambda>k. (k, f k)) ks"
      by (intro map_cong) auto
    then show ?thesis using True by simp
  next
    case False
    then show ?thesis using Cons by simp
  qed
qed

lemma tally_snoc_other: "k \<noteq> s \<Longrightarrow> tally (sources @ [s]) k = tally sources k"
  by (simp add: tally_def split: option.splits)

lemma function_text_not_empty: "function_text name \<noteq> []"
  by (simp add: function_text_def)

lemma tally_bump:
  assumes "s \<noteq> ''__proto__''" and "s \<in> set sources" and "s \<in> set ks"
  shows "or_zero_plus_one (map (\<lambda>k. (k, tally sources k)) ks) s = tally (sources @ [s]) s"
  using assms
  by (auto simp: or_zero_plus_one_def map_of_tabulate tally_def function_text_not_empty
        replicate_append_same split: option.splits)

lemma tally_first:
  assumes "s \<noteq> ''__proto__''" and "s \<notin> set sources" and "s \<notin> set ks"
  shows "or_zero_plus_one (map (\<lambda>k. (k, tally sources k)) ks) s = tally (sources @ [s]) s"
  using assms
  by (auto simp: or_zero_plus_one_def map_of_tabulate tally_def inherited_def
        split: option.splits)

lemma tally_loop_snoc:
  "tally_loop (cs @ [c]) =
     (object_set (fst (tally_loop cs)) (source c) (or_zero_plus_one (fst (tally_loop cs)) (source c)),
      snd (tally_loop cs) + length (text_chunk c))"
  by (simp add: tally_loop_def split: prod.splits)

lemma tally_loop_result:
  "tally_loop cs =
     (map (\<lambda>s. (s, tally (map source cs) s)) (counted_sources cs),
      (\<Sum>c\<leftarrow>cs. length (text_chunk c)))"
proof (induction cs rule: rev_induct)
  case Nil
  then show ?case by (simp add: tally_loop_def counted_sources_def)
next
  case (snoc c cs)
  define srcs where "srcs = map source cs"
  define ks where "ks = counted_sources cs"
  define s where "s = source c"
  have ks_set: "set ks = set srcs - {''__proto__''}"
    by (auto simp: ks_def counted_sources_def srcs_def set_first_seen)
  have IH: "tally_loop cs = (map (\<lambda>k. (k, tally srcs k)) ks, (\<Sum>c\<leftarrow>cs. length (text_chunk c)))"
    using snoc by (simp add: srcs_def ks_def)
  have srcs': "map source (cs @ [c]) = srcs @ [s]" by (simp add: srcs_def s_def)
  have "object_set (map (\<lambda>k. (k, tally srcs k)) ks) s
          (or_zero_plus_one (map (\<lambda>k. (k, tally srcs k)) ks) s)
      = map (\<lambda>k. (k, tally (srcs @ [s]) k)) (counted_sources (cs @ [c]))"
  proof (cases "s = ''__proto__''")
    case True
    then have "counted_sources (cs @ [c]) = ks"
      by (simp add: counted_sources_def ks_def s_def)
    moreover have "map (\<lambda>k. (k, tally (srcs @ [s]) k)) ks = map (\<lambda>k. (k, tally srcs k)) ks"
      using True ks_set by (intro map_cong) (auto simp: tally_snoc_other)
    ultimately show ?thesis using True by (simp add: object_set_def)
  next
    case False
    note not_proto = this
    show ?thesis
    proof (cases "s \<in> set srcs")
      case True
      then have in_ks: "s \<in> set ks" using not_proto ks_set by simp
      have "counted_sources (cs @ [c]) = ks"
        using True not_proto
        by (simp add: counted_sources_def ks_def s_def srcs_def first_seen_snoc)
      moreover have "map (\<lambda>k. (k, ((tally srcs)(s := tally (srcs @ [s]) s)) k)) ks
          = map (\<lambda>k. (k, tally (srcs @ [s]) k)) ks"
        by (intro map_cong) (auto simp: tally_snoc_other)
      ultimately show ?thesis
        using not_proto tally_bump [OF not_proto True in_ks] in_ks
        by (simp add: object_set_def update_tabulate ks_def counted_sources_def
              distinct_first_seen)
    next
      case False
      then have not_in_ks: "s \<notin> set ks" using ks_set by simp
      have "counted_sources (cs @ [c]) = ks @ [s]"
        using False not_proto
        by (simp add: counted_sources_def ks_def s_def srcs_def first_seen_snoc)
      moreover have "map (\<lambda>k. (k, tally (srcs @ [s]) k)) ks = map (\<lambda>k. (k, tally srcs k)) ks"
      proof (intro map_cong refl)
        fix k assume "k \<in> set ks"
        then have "k \<noteq> s" using not_in_ks by auto
        then show "(k, tally (srcs @ [s]) k) = (k, tally srcs k)"
          by (simp add: tally_snoc_other)
      qed
      moreover have "s \<notin> fst ` set (map (\<lambda>k. (k, tally srcs k)) ks)"
        using not_in_ks by auto
      ultimately show ?thesis
        using not_proto tally_first [OF not_proto False not_in_ks]
        by (simp add: object_set_def update_new_key)
    qed
  qed
  then show ?case
    unfolding tally_loop_snoc IH srcs' by (simp add: s_def)
qed


lemma sort_insert_insort_key:
  fixes f :: "'a \<Rightarrow> int"
  assumes "\<forall>y\<in>set ys. num_gt0 (cmp x y) = (f y < f x)"
  shows "sort_insert cmp x ys = insort_key f x ys"
  using assms by (induction ys) auto

lemma array_sort_sort_key:
  fixes f :: "'a \<Rightarrow> int"
  assumes "\<forall>x\<in>set xs. \<forall>y\<in>set xs. num_gt0 (cmp x y) = (f y < f x)"
  shows "array_sort cmp xs = sort_key f xs"
  using assms
proof (induction xs)
  case Nil
  then show ?case by (simp add: array_sort_def)
next
  case (Cons x xs)
  then have "array_sort cmp xs = sort_key f xs" by simp
  moreover have "sort_insert cmp x (sort_key f xs) = insort_key f x (sort_key f xs)"
    using Cons.prems by (intro sort_insert_insort_key) simp
  ultimately show ?case by (simp add: array_sort_Cons)
qed

lemma insort_key_map:
  "insort_key k (g x) (map g ys) = map g (insort_key (\<lambda>y. k (g y)) x ys)"
  by (induction ys) simp_all

lemma sort_key_map:
  "sort_key k (map g xs) = map g (sort_key (\<lambda>y. k (g y)) xs)"
  by (induction xs) (simp_all add: insort_key_map)

lemma length_sort_insert: "length (sort_insert cmp x ys) = Suc (length ys)"
  by (induction ys) simp_all

lemma length_array_sort: "length (array_sort cmp xs) = length xs"
  by (induction xs) (simp_all add: array_sort_def length_sort_insert)

lemma length_object_entries: "length (object_entries obj) = length obj"
proof -
  have "filter (\<lambda>(key, v). \<not> is_array_index key) obj
      = filter (\<lambda>x. \<not> (case x of (key, v) \<Rightarrow> is_array_index key)) obj"
    by (rule filter_cong) auto
  then show ?thesis
    using sum_length_filter_compl [of "\<lambda>(key, v). is_array_index key" obj]
    by (simp add: object_entries_def)
qed

lemma object_entries_tabulate:
  "object_entries (map (\<lambda>s. (s, h s)) ks) = map (\<lambda>s. (s, h s)) (property_order ks)"
  by (simp add: object_entries_def property_order_def filter_map comp_def sort_key_map)

lemma mset_property_order: "mset (property_order ks) = mset ks"
  by (simp add: property_order_def)

lemma set_property_order: "set (property_order ks) = set ks"
  by (auto simp: property_order_def)

lemma distinct_property_order: "distinct ks \<Longrightarrow> distinct (property_order ks)"
  using mset_property_order [of ks] by (metis distinct_count_atmost_1 set_mset_mset)


lemma length_counted_sources:
  "length (counted_sources cs) = card (source ` set cs - {''__proto__''})"
proof -
  have "set (filter (\<lambda>s. s \<noteq> ''__proto__'') (map source cs)) = source ` set cs - {''__proto__''}"
    by auto
  then show ?thesis by (simp add: counted_sources_def length_first_seen)
qed

lemma summary_counts:
  assumes "validateAndProcessData data = Inr (cs, sm)"
  shows "totalChunks sm = length cs"
    and "totalTextLength sm = (\<Sum>c\<leftarrow>cs. length (text_chunk c))"
    and "uniqueSources sm = card (source ` set cs - {''__proto__''})"
    and "length (topSources sm) = min (uniqueSources sm) 10"
  using validateAndProcessData_summary [OF assms]
  by (simp_all add: tally_loop_result object_keys_def length_object_entries
        length_counted_sources length_array_sort)

lemma no_inherited_tally:
  assumes "inherited s = None"
  shows "tally sources s = Num (count_list sources s)"
  using assms by (simp add: inherited_def tally_def split: if_splits option.splits)

lemma no_inherited_counted_sources:
  assumes "\<forall>c\<in>set cs. inherited (source c) = None"
  shows "counted_sources cs = first_seen (map source cs)"
proof -
  have "\<forall>s\<in>set (map source cs). s \<noteq> ''__proto__''"
    using assms by (auto simp: inherited_def)
  then have "filter (\<lambda>s. s \<noteq> ''__proto__'') (map source cs) = map source cs"
    by (simp only: filter_True)
  then show ?thesis by (simp add: counted_sources_def)
qed

lemma topSources_ranked:
  assumes "validateAndProcessData data = Inr (cs, sm)"
    and "\<forall>c\<in>set cs. inherited (source c) = None"
  shows "topSources sm =
           map (\<lambda>(s, n). (s, Num n))
             (take 10
               (sort_key (\<lambda>(s, n). - int n)
                 (map (\<lambda>s. (s, count_list (map source cs) s))
                   (property_order (first_seen (map source cs))))))"
proof -
  define srcs where "srcs = map source cs"
  define ks where "ks = first_seen srcs"
  define E0 where "E0 = map (\<lambda>s. (s, count_list srcs s)) (property_order ks)"
  define G where "G = (\<lambda>(s :: string, n). (s, Num n))"
  define cmp where "cmp = (\<lambda>(k :: string, a) (l :: string, b). num_sub (to_number b) (to_number a))"
  define f where "f = (\<lambda>(s :: string, v). case v of Num n \<Rightarrow> - int n | Str t \<Rightarrow> 0)"
  have ks_in: "inherited s = None" if "s \<in> set ks" for s
    using that assms(2) by (auto simp: ks_def srcs_def set_first_seen)
  have "fst (tally_loop cs) = map (\<lambda>s. (s, tally srcs s)) ks"
    by (simp add: tally_loop_result no_inherited_counted_sources [OF assms(2)] ks_def srcs_def)
  also have "\<dots> = map (\<lambda>s. (s, Num (count_list srcs s))) ks"
    using ks_in by (intro map_cong) (simp_all add: no_inherited_tally)
  finally have "object_entries (fst (tally_loop cs))
      = map (\<lambda>s. (s, Num (count_list srcs s))) (property_order ks)"
    by (simp add: object_entries_tabulate)
  then have entries: "object_entries (fst (tally_loop cs)) = map G E0"
    by (simp add: E0_def G_def comp_def)
  have "\<forall>x\<in>set (map G E0). \<forall>y\<in>set (map G E0). num_gt0 (cmp x y) = (f y < f x)"
    by (auto simp: G_def cmp_def f_def to_number_def num_sub_def num_gt0_def)
  then have "array_sort cmp (map G E0) = sort_key f (map G E0)"
    by (rule array_sort_sort_key)
  also have "\<dots> = map G (sort_key (\<lambda>y. f (G y)) E0)" by (rule sort_key_map)
  also have "(\<lambda>y. f (G y)) = (\<lambda>(s, n). - int n)" by (auto simp: f_def G_def)
  finally have "array_sort cmp (map G E0) = map G (sort_key (\<lambda>(s, n). - int n) E0)" .
  then have "topSources sm = map G (take 10 (sort_key (\<lambda>(s, n). - int n) E0))"
    using validateAndProcessData_summary [OF assms(1)]
    by (simp add: entries cmp_def [symmetric] take_map)
  then show ?thesis by (simp add: G_def E0_def ks_def srcs_def)
qed


section \<open>Validation of the example inputs\<close>

lemma example_input_result:
  "validateAndProcessData example_input
     = Inr (example_collection,
            \<lparr>totalChunks = 2, uniqueSources = 1, topSources = [(''doc1'', Num 2)],
             totalTextLength = 15\<rparr>)"
  by code_simp

lemma fractional_start_result:
  "validateAndProcessData fractional_start_input
     = Inr ([\<lparr>id_chunk = ''a'', source = ''doc1'', text_chunk = ''red fox'',
               startIndex = - 3 / 2, extra = []\<rparr>],
            \<lparr>totalChunks = 1, uniqueSources = 1, topSources = [(''doc1'', Num 1)],
             totalTextLength = 7\<rparr>)"
  by code_simp

lemma numeric_sources_result:
  "validateAndProcessData numeric_sources_input
     = Inr ([\<lparr>id_chunk = ''a'', source = ''2'', text_chunk = ''red'', startIndex = 0, extra = []\<rparr>,
             \<lparr>id_chunk = ''b'', source = ''1'', text_chunk = ''fox'', startIndex = 3, extra = []\<rparr>],
            \<lparr>totalChunks = 2, uniqueSources = 2,
             topSources = [(''1'', Num 1), (''2'', Num 1)],
             totalTextLength = 6\<rparr>)"
  by code_simp

lemma proto_source_result:
  "validateAndProcessData proto_source_input
     = Inr ([\<lparr>id_chunk = ''a'', source = ''__proto__'', text_chunk = ''red fox'',
               startIndex = 0, extra = []\<rparr>],
            \<lparr>totalChunks = 1, uniqueSources = 0, topSources = [], totalTextLength = 7\<rparr>)"
  by code_simp

lemma constructor_source_result:
  "validateAndProcessData constructor_source_input
     = Inr ([\<lparr>id_chunk = ''a'', source = ''constructor'', text_chunk = ''red fox'',
               startIndex = 0, extra = []\<rparr>],
            \<lparr>totalChunks = 1, uniqueSources = 1,
             topSources = [(''constructor'', Str ''function Object() { [native code] }1'')],
             totalTextLength = 7\<rparr>)"
  by code_simp


section \<open>The contract of validateAndProcessData\<close>

lemma validate_items_total:
  "\<forall>item\<in>set items. is_chunk_record item \<Longrightarrow> \<exists>cs. validate_items items = Inr cs"
proof (induction items)
  case Nil
  then show ?case by simp
next
  case (Cons item items)
  then obtain c cs where "validate_item item = Inr c" "validate_items items = Inr cs"
    using validate_item_record [of item] by auto
  then show ?case by simp
qed

lemma validate_items_chunks:
  assumes "validate_items items = Inr cs" and "i < length items"
  shows "is_chunk_record (items ! i)
       \<and> get_field (items ! i) ''id'' = Some (JStr (id_chunk (cs ! i)))
       \<and> get_field (items ! i) ''source'' = Some (JStr (source (cs ! i)))
       \<and> get_field (items ! i) ''text'' = Some (JStr (text_chunk (cs ! i)))
       \<and> get_field (items ! i) ''startIndex'' = Some (JNum (startIndex (cs ! i)))
       \<and> extra (cs ! i) = other_fields (items ! i)"
proof -
  have "validate_item (items ! i) = Inr (cs ! i)"
    using validate_items_Inr [OF assms(1)] assms(2) by simp
  then show ?thesis by (rule validate_item_Inr)
qed

text \<open>
  Claim C4: \<open>validateAndProcessData\<close> fails with the error \<open>NotAList\<close> when the top-level
  value is not a list; when some element of the list is not a record containing string
  \<open>id\<close>, string \<open>source\<close>, string \<open>text\<close> and numeric \<open>startIndex\<close>, it fails with an
  error that either reports a non-object element or names a field of an element whose
  value has the wrong type, with that type; a failure is an error value and carries no
  collection; a list of such records is accepted; and on success the collection has
  one chunk per element, chunk \<open>i\<close> holding the fields of element \<open>i\<close>.
\<close>

theorem validate_contract:
  "((\<forall>items. data \<noteq> JArr items) \<longrightarrow> validateAndProcessData data = Inl NotAList)
   \<and> (\<forall>items. data = JArr items \<and> (\<exists>item\<in>set items. \<not> is_chunk_record item) \<longrightarrow>
        (\<exists>e. validateAndProcessData data = Inl e
           \<and> ((e = NonObjectItem
                 \<and> (\<exists>item\<in>set items. typeof (Some item) \<noteq> ''object'' \<or> item = JNull))
              \<or> (\<exists>field item. item \<in> set items
                   \<and> e = InvalidField field (typeof (get_field item field)) item
                   \<and> field \<in> set [''id'', ''source'', ''text'', ''startIndex'']
                   \<and> typeof (get_field item field) \<noteq> expected_type field))))
   \<and> (\<forall>items. data = JArr items \<and> (\<forall>item\<in>set items. is_chunk_record item) \<longrightarrow>
        (\<exists>cs sm. validateAndProcessData data = Inr (cs, sm)))
   \<and> (\<forall>cs sm. validateAndProcessData data = Inr (cs, sm) \<longrightarrow>
        (\<exists>items. data = JArr items \<and> length cs = length items
           \<and> (\<forall>i<length items. is_chunk_record (items ! i)
                \<and> get_field (items ! i) ''id'' = Some (JStr (id_chunk (cs ! i)))
                \<and> get_field (items ! i) ''source'' = Some (JStr (source (cs ! i)))
                \<and> get_field (items ! i) ''text'' = Some (JStr (text_chunk (cs ! i)))
                \<and> get_field (items ! i) ''startIndex'' = Some (JNum (startIndex (cs ! i)))
                \<and> extra (cs ! i) = other_fields (items ! i))))"
proof (intro conjI allI impI)
  assume "\<forall>items. data \<noteq> JArr items"
  then show "validateAndProcessData data = Inl NotAList"
    by (cases data) (simp_all add: validateAndProcessData_def)
next
  fix items
  assume a: "data = JArr items \<and> (\<exists>item\<in>set items. \<not> is_chunk_record item)"
  have "\<not> (\<exists>cs. validate_items items = Inr cs)"
    using a validate_items_records by blast
  then obtain e where e: "validate_items items = Inl e"
    by (cases "validate_items items") auto
  then have v: "validateAndProcessData data = Inl e"
    using a by (simp add: validateAndProcessData_def)
  from validate_items_Inl [OF e] obtain item where item: "item \<in> set items"
    and "validate_item item = Inl e" by blast
  from validate_item_Inl [OF this(2)]
  have "(e = NonObjectItem
          \<and> (\<exists>item\<in>set items. typeof (Some item) \<noteq> ''object'' \<or> item = JNull))
      \<or> (\<exists>field item. item \<in> set items
            \<and> e = InvalidField field (typeof (get_field item field)) item
            \<and> field \<in> set [''id'', ''source'', ''text'', ''startIndex'']
            \<and> typeof (get_field item field) \<noteq> expected_type field)"
    using item by blast
  with v show "\<exists>e. validateAndProcessData data = Inl e
           \<and> ((e = NonObjectItem
                 \<and> (\<exists>item\<in>set items. typeof (Some item) \<noteq> ''object'' \<or> item = JNull))
              \<or> (\<exists>field item. item \<in> set items
                   \<and> e = InvalidField field (typeof (get_field item field)) item
                   \<and> field \<in> set [''id'', ''source'', ''text'', ''startIndex'']
                   \<and> typeof (get_field item field) \<noteq> expected_type field))"
    by blast
next
  fix items
  assume a: "data = JArr items \<and> (\<forall>item\<in>set items. is_chunk_record item)"
  then obtain cs where "validate_items items = Inr cs" using validate_items_total by blast
  then show "\<exists>cs sm. validateAndProcessData data = Inr (cs, sm)"
    using a validateAndProcessData_accepts by blast
next
  fix cs sm
  assume "validateAndProcessData data = Inr (cs, sm)"
  from validateAndProcessData_Inr [OF this] obtain items where
    items: "data = JArr items" "validate_items items = Inr cs" by blast
  have "length cs = length items" using validate_items_Inr [OF items(2)] by simp
  then show "\<exists>items. data = JArr items \<and> length cs = length items
           \<and> (\<forall>i<length items. is_chunk_record (items ! i)
                \<and> get_field (items ! i) ''id'' = Some (JStr (id_chunk (cs ! i)))
                \<and> get_field (items ! i) ''source'' = Some (JStr (source (cs ! i)))
                \<and> get_field (items ! i) ''text'' = Some (JStr (text_chunk (cs ! i)))
                \<and> get_field (items ! i) ''startIndex'' = Some (JNum (startIndex (cs ! i)))
                \<and> extra (cs ! i) = other_fields (items ! i))"
    using items(1) validate_items_chunks [OF items(2)] by blast
qed

text \<open>
  Claim C3, amended: for every input accepted by \<open>validateAndProcessData\<close>, the \<open>id\<close>,
  \<open>source\<close> and \<open>text\<close> of every chunk of the returned collection are the strings, and
  its \<open>startIndex\<close> is the number, that an element of the input holds in these fields;
  the number may be negative or fractional.
\<close>

theorem validated_chunk_fields:
  "validateAndProcessData data = Inr (cs, sm) \<longrightarrow>
     (\<forall>c\<in>set cs. \<exists>items item. data = JArr items \<and> item \<in> set items
        \<and> get_field item ''id'' = Some (JStr (id_chunk c))
        \<and> get_field item ''source'' = Some (JStr (source c))
        \<and> get_field item ''text'' = Some (JStr (text_chunk c))
        \<and> get_field item ''startIndex'' = Some (JNum (startIndex c)))"
proof (intro impI ballI)
  fix c
  assume v: "validateAndProcessData data = Inr (cs, sm)" and c: "c \<in> set cs"
  from validateAndProcessData_Inr [OF v] obtain items where
    items: "data = JArr items" "validate_items items = Inr cs" by blast
  have len: "length cs = length items" using validate_items_Inr [OF items(2)] by simp
  from c obtain i where i: "i < length cs" "cs ! i = c" by (auto simp: in_set_conv_nth)
  then have "items ! i \<in> set items" using len by simp
  moreover have "get_field (items ! i) ''id'' = Some (JStr (id_chunk c))
       \<and> get_field (items ! i) ''source'' = Some (JStr (source c))
       \<and> get_field (items ! i) ''text'' = Some (JStr (text_chunk c))
       \<and> get_field (items ! i) ''startIndex'' = Some (JNum (startIndex c))"
    using validate_items_chunks [OF items(2), of i] i len by simp
  ultimately show "\<exists>items item. data = JArr items \<and> item \<in> set items
        \<and> get_field item ''id'' = Some (JStr (id_chunk c))
        \<and> get_field item ''source'' = Some (JStr (source c))
        \<and> get_field item ''text'' = Some (JStr (text_chunk c))
        \<and> get_field item ''startIndex'' = Some (JNum (startIndex c))"
    using items(1) by blast
qed


theorem validate_contract_witness:
  "validateAndProcessData (JObj []) = Inl NotAList
   \<and> (\<exists>e. validateAndProcessData (JArr [JStr ''red fox'']) = Inl e
         \<and> ((e = NonObjectItem
               \<and> (\<exists>item\<in>set [JStr ''red fox'']. typeof (Some item) \<noteq> ''object'' \<or> item = JNull))
            \<or> (\<exists>field item. item \<in> set [JStr ''red fox'']
                 \<and> e = InvalidField field (typeof (get_field item field)) item
                 \<and> field \<in> set [''id'', ''source'', ''text'', ''startIndex'']
                 \<and> typeof (get_field item field) \<noteq> expected_type field)))
   \<and> (\<exists>cs sm. validateAndProcessData example_input = Inr (cs, sm))
   \<and> (\<exists>items. example_input = JArr items \<and> length example_collection = length items
         \<and> (\<forall>i<length items. is_chunk_record (items ! i)
              \<and> get_field (items ! i) ''id'' = Some (JStr (id_chunk (example_collection ! i)))
              \<and> get_field (items ! i) ''source'' = Some (JStr (source (example_collection ! i)))
              \<and> get_field (items ! i) ''text'' = Some (JStr (text_chunk (example_collection ! i)))
              \<and> get_field (items ! i) ''startIndex''
                  = Some (JNum (startIndex (example_collection ! i)))
              \<and> extra (example_collection ! i) = other_fields (items ! i)))"
proof -
  have not_list: "\<forall>items. JObj [] \<noteq> JArr items" by simp
  have bad: "JArr [JStr ''red fox''] = JArr [JStr ''red fox'']
      \<and> (\<exists>item\<in>set [JStr ''red fox'']. \<not> is_chunk_record item)"
    by (simp add: is_chunk_record_def)
  have good: "example_input = JArr [chunk_item ''a'' ''doc1'' ''red fox'' 0,
        chunk_item ''b'' ''doc1'' ''blue sky'' 10]
      \<and> (\<forall>item\<in>set [chunk_item ''a'' ''doc1'' ''red fox'' 0,
            chunk_item ''b'' ''doc1'' ''blue sky'' 10]. is_chunk_record item)"
    by (simp add: example_input_def chunk_item_def is_chunk_record_def)
  show ?thesis
    by (intro conjI
          validate_contract [of "JObj []", THEN conjunct1, THEN mp, OF not_list]
          validate_contract [of "JArr [JStr ''red fox'']", THEN conjunct2, THEN conjunct1,
            THEN spec, THEN mp, OF bad]
          validate_contract [of example_input, THEN conjunct2, THEN conjunct2, THEN conjunct1,
            THEN spec, THEN mp, OF good]
          validate_contract [of example_input, THEN conjunct2, THEN conjunct2, THEN conjunct2,
            THEN spec, THEN spec, THEN mp, OF example_input_result])
qed

text \<open>
  Claim C3, as stated: every chunk of an accepted input has a \<open>startIndex\<close> that is a
  non-negative integer. An element whose \<open>startIndex\<close> is \<open>-1.5\<close> is accepted, and returned
  with it.
\<close>

theorem fractional_startIndex_accepted:
  "validateAndProcessData fractional_start_input
     = Inr ([\<lparr>id_chunk = ''a'', source = ''doc1'', text_chunk = ''red fox'',
               startIndex = - 3 / 2, extra = []\<rparr>],
            \<lparr>totalChunks = 1, uniqueSources = 1, topSources = [(''doc1'', Num 1)],
             totalTextLength = 7\<rparr>)
   \<and> startIndex (hd (fst (projr (validateAndProcessData fractional_start_input)))) < 0
   \<and> startIndex (hd (fst (projr (validateAndProcessData fractional_start_input)))) \<notin> \<int>"
proof -
  have "(- 3 / 2 :: real) \<notin> \<int>"
  proof
    assume "(- 3 / 2 :: real) \<in> \<int>"
    then obtain k :: int where "(- 3 / 2 :: real) = of_int k" by (auto elim: Ints_cases)
    then have "real_of_int (2 * k) = - 3" by simp
    then have "2 * k = - 3" by (metis of_int_eq_iff of_int_minus of_int_numeral)
    then show False by presburger
  qed
  then show ?thesis by (simp add: fractional_start_result)
qed

theorem validated_chunk_fields_witness:
  "\<exists>items item. example_input = JArr items \<and> item \<in> set items
        \<and> get_field item ''id'' = Some (JStr (id_chunk chunk_a))
        \<and> get_field item ''source'' = Some (JStr (source chunk_a))
        \<and> get_field item ''text'' = Some (JStr (text_chunk chunk_a))
        \<and> get_field item ''startIndex'' = Some (JNum (startIndex chunk_a))"
proof -
  have "chunk_a \<in> set example_collection" by (simp add: example_collection_def)
  then show ?thesis
    by (rule validated_chunk_fields [rule_format, OF example_input_result])
qed

section \<open>The ranking of the sources\<close>

lemma property_order_no_index:
  assumes "\<forall>k\<in>set ks. \<not> is_array_index k"
  shows "property_order ks = ks"
proof -
  have "filter is_array_index ks = []" using assms by (simp add: filter_empty_conv)
  moreover have "filter (\<lambda>k. \<not> is_array_index k) ks = ks" using assms by simp
  ultimately show ?thesis by (simp add: property_order_def)
qed

lemma sorted_descending_counts:
  "sorted_wrt (\<lambda>p q. snd q \<le> snd p) (sort_key (\<lambda>(s :: string, n :: nat). - int n) entries)"
proof -
  have "sorted (map (\<lambda>(s :: string, n :: nat). - int n) (sort_key (\<lambda>(s, n). - int n) entries))"
    by (rule sorted_sort_key)
  then show ?thesis
    by (simp add: sorted_map case_prod_beta sorted_wrt_mono_rel [where Q = "\<lambda>p q. snd q \<le> snd p"])
qed

lemma stable_counts:
  "filter (\<lambda>p. snd p = n) (sort_key (\<lambda>(s :: string, n :: nat). - int n) entries)
     = filter (\<lambda>p. snd p = n) entries"
proof -
  have "(\<lambda>p :: string \<times> nat. snd p = n) = (\<lambda>p. (case p of (s, m) \<Rightarrow> - int m) = - int n)"
    by (auto simp: fun_eq_iff)
  then show ?thesis by (simp only: sort_key_stable)
qed

text \<open>
  Claim C2, amended: for every valid input none of whose sources is the name of a
  member of \<open>Object.prototype\<close>, \<open>topSources\<close> is the first 10 of the \<open>(source, count)\<close> pairs
  (\<open>ranked\<close>: a rearrangement of all the pairs) ordered descending by count, and
  sources with equal counts appear in the order in which \<open>Object.entries\<close> lists the keys
  of the counts: the sources that are array indices (canonical decimal numerals below
  \<open>2^32 - 1\<close>) first, in ascending numeric order, then the other sources in
  first-encountered order. Where no source is an array index, that is the
  first-encountered order of the sources.
\<close>

theorem topSources_order:
  "validateAndProcessData data = Inr (cs, sm) \<and> (\<forall>c\<in>set cs. inherited (source c) = None) \<longrightarrow>
     (let entries = map (\<lambda>s. (s, count_list (map source cs) s))
                      (property_order (first_seen (map source cs)));
          ranked = sort_key (\<lambda>(s, n). - int n) entries
      in topSources sm = map (\<lambda>(s, n). (s, Num n)) (take 10 ranked)
         \<and> mset ranked = mset entries
         \<and> sorted_wrt (\<lambda>p q. snd q \<le> snd p) ranked
         \<and> (\<forall>n. filter (\<lambda>p. snd p = n) ranked = filter (\<lambda>p. snd p = n) entries)
         \<and> ((\<forall>c\<in>set cs. \<not> is_array_index (source c)) \<longrightarrow>
              property_order (first_seen (map source cs)) = first_seen (map source cs)))"
proof (intro impI)
  assume a: "validateAndProcessData data = Inr (cs, sm) \<and> (\<forall>c\<in>set cs. inherited (source c) = None)"
  have "(\<forall>c\<in>set cs. \<not> is_array_index (source c)) \<longrightarrow>
      property_order (first_seen (map source cs)) = first_seen (map source cs)"
    by (auto intro!: property_order_no_index simp: set_first_seen)
  then show "let entries = map (\<lambda>s. (s, count_list (map source cs) s))
                      (property_order (first_seen (map source cs)));
          ranked = sort_key (\<lambda>(s, n). - int n) entries
      in topSources sm = map (\<lambda>(s, n). (s, Num n)) (take 10 ranked)
         \<and> mset ranked = mset entries
         \<and> sorted_wrt (\<lambda>p q. snd q \<le> snd p) ranked
         \<and> (\<forall>n. filter (\<lambda>p. snd p = n) ranked = filter (\<lambda>p. snd p = n) entries)
         \<and> ((\<forall>c\<in>set cs. \<not> is_array_index (source c)) \<longrightarrow>
              property_order (first_seen (map source cs)) = first_seen (map source cs))"
    using topSources_ranked [of data cs sm] a sorted_descending_counts stable_counts
    by (simp add: Let_def)
qed


theorem topSources_order_witness:
  "(let entries = map (\<lambda>s. (s, count_list
                     (map source (fst (projr (validateAndProcessData numeric_sources_input)))) s))
                    (property_order (first_seen
                      (map source (fst (projr (validateAndProcessData numeric_sources_input))))));
        ranked = sort_key (\<lambda>(s, n). - int n) entries
    in topSources (snd (projr (validateAndProcessData numeric_sources_input)))
         = map (\<lambda>(s, n). (s, Num n)) (take 10 ranked)
       \<and> mset ranked = mset entries
       \<and> sorted_wrt (\<lambda>p q. snd q \<le> snd p) ranked
       \<and> (\<forall>n. filter (\<lambda>p. snd p = n) ranked = filter (\<lambda>p. snd p = n) entries)
       \<and> ((\<forall>c\<in>set (fst (projr (validateAndProcessData numeric_sources_input))).
              \<not> is_array_index (source c)) \<longrightarrow>
            property_order (first_seen
                (map source (fst (projr (validateAndProcessData numeric_sources_input)))))
              = first_seen (map source (fst (projr (validateAndProcessData numeric_sources_input))))))"
proof -
  have v: "validateAndProcessData numeric_sources_input
      = Inr (fst (projr (validateAndProcessData numeric_sources_input)),
             snd (projr (validateAndProcessData numeric_sources_input)))"
    by (simp add: numeric_sources_result)
  have "inherited ''2'' = None" and "inherited ''1'' = None" by code_simp+
  then have h: "\<forall>c\<in>set (fst (projr (validateAndProcessData numeric_sources_input))).
      inherited (source c) = None"
    by (simp add: numeric_sources_result)
  show ?thesis by (rule topSources_order [THEN mp, OF conjI [OF v h]])
qed

text \<open>
  Claim C2, as stated: sources with equal counts appear in \<open>topSources\<close> in
  first-encountered order. For two chunks with the sources \<open>2\<close> and \<open>1\<close>, in this order,
  both counts are \<open>1\<close> and \<open>topSources\<close> lists \<open>1\<close> before \<open>2\<close>.
\<close>

theorem numeric_sources_order:
  "topSources (snd (projr (validateAndProcessData numeric_sources_input)))
     = [(''1'', Num 1), (''2'', Num 1)]
   \<and> first_seen (map source (fst (projr (validateAndProcessData numeric_sources_input))))
     = [''2'', ''1'']"
  by (simp add: numeric_sources_result)

section \<open>Sources named like members of Object.prototype\<close>

text \<open>
  Claim C7 at the input \<open>[{id: "a", source: "__proto__", text: "red fox", startIndex: 0}]\<close>:
  the collection has one chunk and one distinct source, and \<open>uniqueSources\<close> is \<open>0\<close>;
  \<open>totalChunks\<close> and \<open>totalTextLength\<close> are as claimed. (For every valid input,
  \<open>summary_counts\<close> above gives \<open>totalChunks\<close>, \<open>totalTextLength\<close> and, as \<open>uniqueSources\<close>, the
  number of distinct sources other than \<open>__proto__\<close>.)
\<close>

theorem proto_source_not_counted:
  "validateAndProcessData proto_source_input
     = Inr ([\<lparr>id_chunk = ''a'', source = ''__proto__'', text_chunk = ''red fox'',
               startIndex = 0, extra = []\<rparr>],
            \<lparr>totalChunks = 1, uniqueSources = 0, topSources = [], totalTextLength = 7\<rparr>)
   \<and> card (source ` set (fst (projr (validateAndProcessData proto_source_input)))) = 1"
  by (simp add: proto_source_result)

text \<open>
  Claim C10 at the input \<open>[{id: "a", source: "constructor", text: "red fox", startIndex: 0}]\<close>:
  the one entry of \<open>topSources\<close> has as its count the string made of the text of the
  function \<open>Object\<close> and \<open>1\<close>, no number. (For every valid input \<open>topSources\<close> has
  \<open>min(uniqueSources, 10)\<close> entries, by \<open>summary_counts\<close>; where no source is the name of a
  member of \<open>Object.prototype\<close>, every count is a number, at least \<open>1\<close>, and the counts sum
  to at most \<open>totalChunks\<close>, by \<open>topSources_counts\<close> below.)
\<close>

theorem constructor_source_count:
  "validateAndProcessData constructor_source_input
     = Inr ([\<lparr>id_chunk = ''a'', source = ''constructor'', text_chunk = ''red fox'',
               startIndex = 0, extra = []\<rparr>],
            \<lparr>totalChunks = 1, uniqueSources = 1,
             topSources = [(''constructor'', Str ''function Object() { [native code] }1'')],
             totalTextLength = 7\<rparr>)"
  by (simp add: constructor_source_result)

section \<open>Saving and fetching a store\<close>

text \<open>
  Claim C9: for every file name and content, when \<open>saveVectorData\<close> returns an id,
  \<open>getVectorStore\<close> of that id on the resulting database returns the record with that id,
  the given file name and the given content. \<open>saveVectorData\<close> does return an id, the
  time of the call, when the database opens and holds no record with that id.
\<close>

theorem save_then_get:
  "(\<forall>i db'. saveVectorData now name c db = Inr (i, db') \<longrightarrow>
      getVectorStore i db' = Inr (Some \<lparr>id_store = i, fileName = name, content = c\<rparr>))
   \<and> (available db \<and> vectorData db now = None \<longrightarrow>
        (\<exists>db'. saveVectorData now name c db = Inr (now, db')))"
  by (auto simp: saveVectorData_def getVectorStore_def Let_def split: if_splits)

theorem save_then_get_witness:
  "(\<exists>db'. saveVectorData 1700000000000 ''store.json'' example_input empty_database
            = Inr (1700000000000, db'))
   \<and> getVectorStore 1700000000000
        (snd (projr (saveVectorData 1700000000000 ''store.json'' example_input empty_database)))
       = Inr (Some \<lparr>id_store = 1700000000000, fileName = ''store.json'',
                     content = example_input\<rparr>)"
proof -
  have free: "available empty_database \<and> vectorData empty_database 1700000000000 = None"
    by (simp add: empty_database_def)
  note t = save_then_get [of 1700000000000 "''store.json''" example_input empty_database]
  from t [THEN conjunct2, THEN mp, OF free] obtain db' where
    s: "saveVectorData 1700000000000 ''store.json'' example_input empty_database
          = Inr (1700000000000, db')" ..
  have "getVectorStore 1700000000000 db'
      = Inr (Some \<lparr>id_store = 1700000000000, fileName = ''store.json'', content = example_input\<rparr>)"
    by (rule t [THEN conjunct1, THEN spec, THEN spec, THEN mp, OF s])
  then show ?thesis using s by simp
qed


section \<open>The listed counts\<close>

lemma sum_list_take_le: "sum_list (take k (xs :: nat list)) \<le> sum_list xs"
proof -
  have "sum_list xs = sum_list (take k xs) + sum_list (drop k xs)"
    by (metis append_take_drop_id sum_list_append)
  then show ?thesis by simp
qed

lemma sum_counts_distinct:
  assumes "distinct ks" and "set ks = set xs"
  shows "sum_list (map (count_list xs) ks) = length xs"
proof -
  have "sum_list (map (count_list xs) ks) = sum (count_list xs) (set ks)"
    using assms(1) by (rule sum_list_distinct_conv_sum_set)
  also have "\<dots> = length xs" using assms(2) by (simp add: sum_count_set)
  finally show ?thesis .
qed

lemma topSources_counts:
  assumes "validateAndProcessData data = Inr (cs, sm)"
    and "\<forall>c\<in>set cs. inherited (source c) = None"
  shows "\<exists>counts. topSources sm = map (\<lambda>(s, n). (s, Num n)) counts
           \<and> length counts = min (uniqueSources sm) 10
           \<and> (\<forall>(s, n)\<in>set counts. 1 \<le> n)
           \<and> sum_list (map snd counts) \<le> totalChunks sm"
proof -
  define srcs where "srcs = map source cs"
  define ks where "ks = property_order (first_seen srcs)"
  define E0 where "E0 = map (\<lambda>s. (s, count_list srcs s)) ks"
  define ranked where "ranked = sort_key (\<lambda>(s :: string, n :: nat). - int n) E0"
  define counts where "counts = take 10 ranked"
  have top: "topSources sm = map (\<lambda>(s, n). (s, Num n)) counts"
    using topSources_ranked [OF assms] by (simp add: counts_def ranked_def E0_def ks_def srcs_def)
  have ks: "distinct ks" "set ks = set srcs"
    by (simp_all add: ks_def distinct_property_order distinct_first_seen set_property_order
          set_first_seen)
  have len: "length counts = min (uniqueSources sm) 10"
    using summary_counts(4) [OF assms(1)] by (simp add: top)
  have pos: "\<forall>(s, n)\<in>set counts. 1 \<le> n"
  proof -
    have "1 \<le> n" if "(s, n) \<in> set E0" for s n
    proof -
      from that have "n = count_list srcs s" "s \<in> set srcs" using ks(2) by (auto simp: E0_def)
      then have "n \<noteq> 0" by (simp add: count_list_0_iff)
      then show ?thesis by simp
    qed
    moreover have "set counts \<subseteq> set E0"
      unfolding counts_def ranked_def using set_take_subset [of 10 "sort_key _ E0"] by simp
    ultimately show ?thesis by auto
  qed
  have "sum_list (map snd counts) \<le> sum_list (map snd ranked)"
    by (simp add: counts_def take_map [symmetric] sum_list_take_le)
  also have "sum_list (map snd ranked) = sum_list (map snd E0)"
  proof -
    have "mset (map snd ranked) = mset (map snd E0)" by (simp add: ranked_def)
    then show ?thesis by (metis sum_mset_sum_list)
  qed
  also have "\<dots> = sum_list (map (count_list srcs) ks)" by (simp add: E0_def comp_def)
  also have "\<dots> = length srcs" using ks by (rule sum_counts_distinct)
  also have "\<dots> = totalChunks sm" using summary_counts(1) [OF assms(1)] by (simp add: srcs_def)
  finally have "sum_list (map snd counts) \<le> totalChunks sm" .
  then show ?thesis using top len pos by blast
qed

end
